theory Spec2Isabelle
  imports Main "HOL-Library.Word"
begin

unbundle bit_operations_syntax

section \<open>Data model: the bitfield tables of the PCI configuration header\<close>

text \<open>
  \<^verbatim>\<open>struct config_space_bitfield { char name[64]; unsigned int offset; unsigned int size; }\<close>
  (pci_header.c and pci_dev.c declare the same struct and the same two tables).
  The fields are prefixed with \<open>bf_\<close>, since \<open>size\<close> is a constant of HOL.
  A C \<open>unsigned int\<close> is a 32-bit word, \<open>size_t\<close>, \<open>long\<close> and \<open>uint64_t\<close> are 64-bit
  words (the LP64 data model of the x86-64 Linux targets the two programs are built for).
\<close>

type_synonym u8 = "8 word"
type_synonym u32 = "32 word"
type_synonym u64 = "64 word"

record config_space_bitfield =
  bf_name :: string
  bf_offset :: u32
  bf_size :: u32

definition bfield :: "string \<Rightarrow> u32 \<Rightarrow> u32 \<Rightarrow> config_space_bitfield" where
  "bfield n off sz = \<lparr>bf_name = n, bf_offset = off, bf_size = sz\<rparr>"

definition type_0_header :: "config_space_bitfield list" where
  "type_0_header =
   [bfield ''Vendor ID'' 0x0 2,
    bfield ''Device ID'' 0x2 2,
    bfield ''Command'' 0x4 2,
    bfield ''Status'' 0x6 2,
    bfield ''Revision ID'' 0x8 1,
    bfield ''Class Code'' 0xA 3,
    bfield ''Cache Line S'' 0xC 1,
    bfield ''Lat. Timer'' 0xD 1,
    bfield ''Header Type'' 0xE 1,
    bfield ''BIST'' 0xF 1,
    bfield ''BAR 0'' 0x10 4,
    bfield ''BAR 1'' 0x14 4,
    bfield ''BAR 2'' 0x18 4,
    bfield ''BAR 3'' 0x1C 4,
    bfield ''BAR 4'' 0x20 4,
    bfield ''BAR 5'' 0x24 4,
    bfield ''Cardbus CIS Pointer'' 0x28 4,
    bfield ''Subsystem Vendor ID'' 0x2C 2,
    bfield ''Subsystem ID'' 0x2E 2,
    bfield ''Expansion ROM Address'' 0x30 4,
    bfield ''Cap. Pointer'' 0x34 1,
    bfield ''Reserved'' 0x35 3,
    bfield ''Reserved'' 0x38 4,
    bfield ''IRQ'' 0x3C 1,
    bfield ''IRQ Pin'' 0x3D 1,
    bfield ''Min Gnt.'' 0x3E 1,
    bfield ''Max Lat.'' 0x3F 1,
    bfield ''End'' 0x40 5]"

definition type_1_header :: "config_space_bitfield list" where
  "type_1_header =
   [bfield ''Vendor ID'' 0x0 2,
    bfield ''Device ID'' 0x2 2,
    bfield ''Command'' 0x4 2,
    bfield ''Status'' 0x6 2,
    bfield ''Revision ID'' 0x8 1,
    bfield ''Class Code'' 0xA 3,
    bfield ''Cache Line S'' 0xC 1,
    bfield ''Lat. Timer'' 0xD 1,
    bfield ''Header Type'' 0xE 1,
    bfield ''BIST'' 0xF 1,
    bfield ''BAR 0'' 0x10 4,
    bfield ''BAR 1'' 0x14 4,
    bfield ''Primary Bus'' 0x18 1,
    bfield ''Secondary Bus'' 0x19 1,
    bfield ''Sub. Bus'' 0x1A 1,
    bfield ''Sec Lat timer'' 0x1B 1,
    bfield ''IO Base'' 0x1C 1,
    bfield ''IO Limit'' 0x1D 1,
    bfield ''Sec. Status'' 0x1E 2,
    bfield ''Memory Limit'' 0x20 2,
    bfield ''Memory Base'' 0x22 2,
    bfield ''Pref. Memory Limit'' 0x24 2,
    bfield ''Pref. Memory Base'' 0x26 2,
    bfield ''Pref. Memory Base U'' 0x28 4,
    bfield ''Pref. Memory Base L'' 0x2C 4,
    bfield ''IO Base Upper'' 0x30 2,
    bfield ''IO Limit Upper'' 0x32 2,
    bfield ''Cap. Pointer'' 0x34 1,
    bfield ''Reserved'' 0x35 3,
    bfield ''Exp. ROM Base Addr'' 0x38 4,
    bfield ''IRQ Line'' 0x3C 1,
    bfield ''IRQ Pin'' 0x3D 1,
    bfield ''Min Gnt.'' 0x3E 1,
    bfield ''Max Lat.'' 0x3F 1,
    bfield ''End'' 0x40 5]"

text \<open>\<^verbatim>\<open>struct config_space_bitfield *types[2] = {&type_0_header[0], &type_1_header[0]};\<close>\<close>

definition types :: "config_space_bitfield list list" where
  "types = [type_0_header, type_1_header]"

section \<open>int_2_hexstr\<close>

text \<open>\<^verbatim>\<open>const char letters[] = {'0', ..., '9', 'A', ..., 'F'};\<close>\<close>

definition letters :: string where
  "letters = ''0123456789ABCDEF''"

text \<open>
  The \<^verbatim>\<open>while((value > 0) && (i>1))\<close> loop of \<open>int_2_hexstr\<close>: it writes the low nibble of
  \<open>value\<close> at index \<open>i\<close> of the destination buffer, shifts \<open>value\<close> right by four bits
  and steps \<open>i\<close> down.
\<close>

function hexstr_loop :: "u32 \<Rightarrow> nat \<Rightarrow> string \<Rightarrow> string" where
  "hexstr_loop v i destination =
     (if v > 0 \<and> i > 1
      then hexstr_loop (drop_bit 4 v) (i - 1) (destination[i := letters ! unat (v AND 0xf)])
      else destination)"
  by pat_completeness auto
termination
  by (relation "measure (\<lambda>(v, i, d). i)") auto

declare hexstr_loop.simps [simp del]

text \<open>
  \<^verbatim>\<open>strcpy(destination, "0x"); for(i=0; i<size; i++) strcat(destination, "00");
  i=2+2*size - 1;\<close> and then the loop. The result is the string left in the buffer.
\<close>

definition int_2_hexstr :: "u32 \<Rightarrow> u32 \<Rightarrow> string" where
  "int_2_hexstr v sz =
     hexstr_loop v (unat (2 + 2 * sz - 1)) (''0x'' @ concat (replicate (unat sz) ''00''))"

text \<open>
  The string the specification asks for, written from its words: \<open>n\<close> uppercase
  hexadecimal digits of \<open>x\<close>, most significant first, zero-padded on the left and cut to
  the low \<open>n\<close> digits.
\<close>

fun hex_fixed :: "nat \<Rightarrow> nat \<Rightarrow> string" where
  "hex_fixed 0 x = []"
| "hex_fixed (Suc n) x = hex_fixed n (x div 16) @ [letters ! (x mod 16)]"

section \<open>Faults\<close>

text \<open>
  Where the C code would leave defined behaviour, the model returns a fault instead of a
  value: reading a table past its last entry, indexing \<open>types\<close> outside its two entries, a
  shift whose count or result does not fit the 64-bit \<open>long\<close>, and writing past the 16 bytes
  of \<open>str_value\<close>.
\<close>

datatype fault =
    Table_Overrun nat
  | Types_Index_Out_Of_Range nat
  | Shift_Overflow
  | Buffer_Overrun

section \<open>Extracting one bitfield from a dword\<close>

text \<open>
  \<^verbatim>\<open>mask = ((1L<<(ptr[bitfield].size * 8))-1) << (8*(ptr[bitfield].offset - i));\<close>
  Both counts are \<open>unsigned int\<close> expressions; the shifted operand is a (signed, 64-bit)
  \<open>long\<close>, so the shifts are defined only while the result stays below \<open>2^63\<close>.
\<close>

definition bf_mask :: "config_space_bitfield \<Rightarrow> u32 \<Rightarrow> fault + u64" where
  "bf_mask s i =
     (let k = unat (bf_size s * 8); c = unat (8 * (bf_offset s - i))
      in if k < 63 \<and> k + c < 64 then Inr (push_bit c (push_bit k 1 - 1)) else Inl Shift_Overflow)"

text \<open>
  \<^verbatim>\<open>bf_value = (value & mask) >> (8*(ptr[bitfield].offset - i));\<close>
  \<open>value\<close> is widened to 64 bits for the conjunction and the result is narrowed to the
  \<open>uint32_t\<close> \<open>bf_value\<close>.
\<close>

definition bf_value :: "u32 \<Rightarrow> u64 \<Rightarrow> config_space_bitfield \<Rightarrow> u32 \<Rightarrow> u32" where
  "bf_value v m s i = ucast (drop_bit (unat (8 * (bf_offset s - i))) ((ucast v :: u64) AND m))"

text \<open>
  The extraction as the specification words it, on unbounded naturals:
  \<open>mask = ((1 << (width*8)) - 1) << (8*sh)\<close> and \<open>(raw & mask) >> (8*sh)\<close>, where \<open>sh\<close>
  is the offset of the field within its window.
\<close>

definition spec_mask :: "nat \<Rightarrow> nat \<Rightarrow> nat" where
  "spec_mask width sh = push_bit (8 * sh) (push_bit (width * 8) 1 - 1)"

definition spec_field_value :: "nat \<Rightarrow> nat \<Rightarrow> nat \<Rightarrow> nat" where
  "spec_field_value raw width sh = drop_bit (8 * sh) (raw AND spec_mask width sh)"

section \<open>The cells of the table\<close>

definition strlen :: "string \<Rightarrow> u64" where
  "strlen str = of_nat (length str)"

text \<open>\<^verbatim>\<open>for (j=a; j<b; j++) putchar(' ');\<close> with \<open>int j\<close>.\<close>

definition spaces :: "int \<Rightarrow> int \<Rightarrow> string" where
  "spaces a b = replicate (nat (b - a)) CHR '' ''"

text \<open>\<^verbatim>\<open>space_available = 14 * ptr[bitfield].size + (ptr[bitfield].size -1);\<close>\<close>

definition space_available :: "config_space_bitfield \<Rightarrow> u32" where
  "space_available s = 14 * bf_size s + (bf_size s - 1)"

text \<open>
  \<^verbatim>\<open>padding = (space_available - strlen(ptr[bitfield].name)) / 2;\<close>
  The subtraction and the division are done in \<open>size_t\<close>, the result is narrowed to the
  \<open>unsigned int\<close> \<open>padding\<close>.
\<close>

definition label_padding :: "config_space_bitfield \<Rightarrow> u32" where
  "label_padding s = ucast (((ucast (space_available s) :: u64) - strlen (bf_name s)) div 2)"

text \<open>
  The body of the label loop: left padding, the name, right padding up to
  \<open>space_available\<close>, and the closing bar. The second \<open>for\<close> starts at
  \<^verbatim>\<open>j=(int) padding + strlen(name)\<close>, a \<open>size_t\<close> sum narrowed to \<open>int\<close>.
\<close>

definition label_cell :: "config_space_bitfield \<Rightarrow> string" where
  "label_cell s =
     (let padding = label_padding s
      in spaces 0 (sint padding) @ bf_name s
         @ spaces (sint (padding + ucast (strlen (bf_name s)))) (sint (space_available s))
         @ ''|'')"

text \<open>
  \<^verbatim>\<open>padding = (space_available - ( 2 + ptr[bitfield].size)) / 2;\<close> in the value loop,
  all in \<open>unsigned int\<close>.
\<close>

definition value_padding :: "config_space_bitfield \<Rightarrow> u32" where
  "value_padding s = (space_available s - (2 + bf_size s)) div 2"

text \<open>
  The printing half of the value loop's body: left padding, the string \<open>int_2_hexstr\<close>
  leaves in \<open>str_value\<close>, right padding up to \<open>space_available\<close>, and the closing bar.
  \<open>int_2_hexstr\<close> fills the caller's \<^verbatim>\<open>char str_value[16]\<close> with \<open>2 + 2*size\<close>
  characters and the terminating NUL, so a larger \<open>size\<close> writes past the buffer.
\<close>

definition value_text :: "u32 \<Rightarrow> config_space_bitfield \<Rightarrow> string" where
  "value_text bf_val s =
     (let padding = value_padding s;
          str_value = int_2_hexstr bf_val (bf_size s)
      in spaces 0 (sint padding) @ str_value
         @ spaces (sint (padding + ucast (strlen str_value))) (sint (space_available s))
         @ ''|'')"

definition value_cell :: "u32 \<Rightarrow> config_space_bitfield \<Rightarrow> fault + string" where
  "value_cell bf_val s =
     (if 16 < 2 + 2 * unat (bf_size s) + 1 then Inl Buffer_Overrun
      else Inr (value_text bf_val s))"

section \<open>The two loops over the table\<close>

text \<open>
  \<^verbatim>\<open>while (ptr[bitfield].offset < i+4){ ...; bitfield++; }\<close>, the label loop. \<open>out\<close> is
  the text printed so far; the loop returns the cursor it stopped at and the text.
\<close>

function label_loop ::
  "config_space_bitfield list \<Rightarrow> nat \<Rightarrow> u32 \<Rightarrow> string \<Rightarrow> fault + nat \<times> string" where
  "label_loop ptr bitfield i out =
     (if length ptr \<le> bitfield then Inl (Table_Overrun bitfield)
      else if bf_offset (ptr ! bitfield) < i + 4
      then label_loop ptr (bitfield + 1) i (out @ label_cell (ptr ! bitfield))
      else Inr (bitfield, out))"
  by pat_completeness auto
termination
  by (relation "measure (\<lambda>(ptr, bitfield, i, out). length ptr - bitfield)") auto

declare label_loop.simps [simp del]

text \<open>
  The value loop, with its \<^verbatim>\<open>if (ptr[bitfield].size == 5) break;\<close> ahead of the extraction.
  Next to the text, the loop records every mask it constructs, with the entry it was
  constructed for.
\<close>

function value_loop ::
  "config_space_bitfield list \<Rightarrow> nat \<Rightarrow> u32 \<Rightarrow> u32 \<Rightarrow> string \<Rightarrow>
   (config_space_bitfield \<times> u64) list \<Rightarrow>
   fault + nat \<times> string \<times> (config_space_bitfield \<times> u64) list" where
  "value_loop ptr bitfield i v out masks =
     (if length ptr \<le> bitfield then Inl (Table_Overrun bitfield)
      else if bf_offset (ptr ! bitfield) < i + 4
      then
        if bf_size (ptr ! bitfield) = 5 then Inr (bitfield, out, masks)
        else
          (case bf_mask (ptr ! bitfield) i of
             Inl e \<Rightarrow> Inl e
           | Inr m \<Rightarrow>
              (case value_cell (bf_value v m (ptr ! bitfield) i) (ptr ! bitfield) of
                 Inl e \<Rightarrow> Inl e
               | Inr cell \<Rightarrow>
                   value_loop ptr (bitfield + 1) i v (out @ cell)
                     (masks @ [(ptr ! bitfield, m)])))
      else Inr (bitfield, out, masks))"
  by pat_completeness auto
termination
  by (relation "measure (\<lambda>(ptr, bitfield, i, v, out, masks). length ptr - bitfield)") auto

declare value_loop.simps [simp del]

section \<open>Formatted output\<close>

text \<open>
  What \<open>printf\<close> prints for \<^verbatim>\<open>%x\<close> (lower-case hexadecimal, no leading zeros) and for
  \<^verbatim>\<open>%02x\<close> (the same, zero-padded to two digits), as the C library defines them.
\<close>

definition lower_digits :: string where
  "lower_digits = ''0123456789abcdef''"

function fmt_x :: "nat \<Rightarrow> string" where
  "fmt_x n = (if n < 16 then [lower_digits ! n] else fmt_x (n div 16) @ [lower_digits ! (n mod 16)])"
  by pat_completeness auto
termination
  by (relation "measure (\<lambda>n. n)") auto

declare fmt_x.simps [simp del]

definition fmt_02x :: "nat \<Rightarrow> string" where
  "fmt_02x n = replicate (2 - length (fmt_x n)) CHR ''0'' @ fmt_x n"

definition newline :: string where
  "newline = [CHR 0x0A]"

definition banner :: string where
  "banner = ''|    Byte 0    |   Byte 1     |    Byte 2    |    Byte 3    |    |    Byte 0    |   Byte 1     |    Byte 2    |    Byte 3    |''"

definition separator :: string where
  "separator = ''|-----------------------------------------------------------|    |-----------------------------------------------------------|''"

text \<open>\<^verbatim>\<open>const char *ctypes[] = {"n Endpoint", " Bridge"};\<close>\<close>

definition ctypes :: "string list" where
  "ctypes = [''n Endpoint'', '' Bridge'']"

section \<open>The user-space program (pci_header.c)\<close>

text \<open>
  The state the program acts on: the address latched in the index port \<open>0xCF8\<close>, the
  configuration dword the data port \<open>0xCFC\<close> returns for each latched address, and the
  text written to the standard output.
\<close>

record io_state =
  cfg_addr :: u32
  cfg_data :: "u32 \<Rightarrow> u32"
  stdout :: string

text \<open>
  \<^verbatim>\<open>#define PCI_CFGTAG(bus, dev, func, reg)
     (PCI_CFGTAG_ENABLE | ((bus) << 16) | ((dev) << 11) | ((func) << 8) | (reg))\<close>
\<close>

definition PCI_CFGTAG :: "u8 \<Rightarrow> u8 \<Rightarrow> u8 \<Rightarrow> u8 \<Rightarrow> u32" where
  "PCI_CFGTAG bus dev func reg =
     0x80000000 OR push_bit 16 (ucast bus) OR push_bit 11 (ucast dev) OR push_bit 8 (ucast func)
       OR ucast reg"

text \<open>\<^verbatim>\<open>outl(address, PCI_CFG_ADDR)\<close> and \<^verbatim>\<open>inl(PCI_CFG_DATA)\<close>.\<close>

definition outl_cfg_addr :: "u32 \<Rightarrow> io_state \<Rightarrow> io_state" where
  "outl_cfg_addr address s = s\<lparr>cfg_addr := address\<rparr>"

definition inl_cfg_data :: "io_state \<Rightarrow> u32" where
  "inl_cfg_data s = cfg_data s (cfg_addr s)"

definition pci_cfg_reg_read_byte :: "u8 \<Rightarrow> u8 \<Rightarrow> u8 \<Rightarrow> u8 \<Rightarrow> io_state \<Rightarrow> u8 \<times> io_state" where
  "pci_cfg_reg_read_byte bus dev func reg s =
     (let s' = outl_cfg_addr (PCI_CFGTAG bus dev func (reg AND 0xFC)) s
      in (ucast (drop_bit (unat ((reg AND 3) * 8)) (inl_cfg_data s') AND 0xFF), s'))"

definition pci_cfg_reg_read_dword :: "u8 \<Rightarrow> u8 \<Rightarrow> u8 \<Rightarrow> u8 \<Rightarrow> io_state \<Rightarrow> u32 \<times> io_state" where
  "pci_cfg_reg_read_dword bus dev func reg s =
     (let s' = outl_cfg_addr (PCI_CFGTAG bus dev func (reg AND 0xFC)) s
      in (inl_cfg_data s', s'))"

text \<open>\<^verbatim>\<open>#define PCI_HEADER_TYPE 0x0e\<close>\<close>

definition pci_cfg_reg_read_header_type :: "u8 \<Rightarrow> u8 \<Rightarrow> u8 \<Rightarrow> io_state \<Rightarrow> u8 \<times> io_state" where
  "pci_cfg_reg_read_header_type bus dev func s = pci_cfg_reg_read_byte bus dev func 0x0e s"

definition printf :: "string \<Rightarrow> io_state \<Rightarrow> io_state" where
  "printf text s = s\<lparr>stdout := stdout s @ text\<rparr>"

text \<open>\<^verbatim>\<open>types[header_type]\<close>: an index into an array of two pointers.\<close>

definition types_at :: "nat \<Rightarrow> fault + config_space_bitfield list" where
  "types_at n = (if n < length types then Inr (types ! n) else Inl (Types_Index_Out_Of_Range n))"

text \<open>
  \<^verbatim>\<open>for (i=0; i<0x40; i+=4){ ... }\<close> of \<open>print_pci_header\<close>: the label loop from the
  cursor \<open>bitfield\<close>, the read of the dword at \<open>i\<close>, the value loop from the same cursor
  (\<^verbatim>\<open>bitfield = bf2\<close>), the address and the separator line. The next window starts at
  the cursor the value loop stopped at.
\<close>

function header_rows ::
  "u8 \<Rightarrow> u8 \<Rightarrow> u8 \<Rightarrow> config_space_bitfield list \<Rightarrow> u32 \<Rightarrow> nat \<Rightarrow> io_state \<Rightarrow> fault + io_state"
  where
  "header_rows bus dev func ptr i bitfield s =
     (if i < 0x40 then
        (case label_loop ptr bitfield i (stdout s @ ''|'') of
           Inl e \<Rightarrow> Inl e
         | Inr (bf_end, out1) \<Rightarrow>
            (case pci_cfg_reg_read_dword bus dev func (ucast i) (s\<lparr>stdout := out1\<rparr>) of
               (v, s1) \<Rightarrow>
                 (case value_loop ptr bitfield i v (stdout s1 @ ''    |'') [] of
                    Inl e \<Rightarrow> Inl e
                  | Inr (bitfield', out2, masks) \<Rightarrow>
                      header_rows bus dev func ptr (i + 4) bitfield'
                        (s1\<lparr>stdout := out2 @ ''    0x'' @ fmt_02x (unat i) @ newline
                                         @ separator @ newline\<rparr>))))
      else Inr s)"
  by pat_completeness auto
termination
  by (relation "measure (\<lambda>(bus, dev, func, ptr, i, bitfield, s). 64 - unat i)")
     (auto simp: word_less_nat_alt unat_word_ariths)

declare header_rows.simps [simp del]

text \<open>
  \<open>print_pci_header(bus, dev, func)\<close> of pci_header.c. A header type other than 0 and 1
  prints the two messages and returns; otherwise the table for the type is taken from
  \<open>types\<close> and dumped.
\<close>

definition print_pci_header :: "u8 \<Rightarrow> u8 \<Rightarrow> u8 \<Rightarrow> io_state \<Rightarrow> fault + io_state" where
  "print_pci_header bus dev func s0 =
     (case pci_cfg_reg_read_header_type bus dev func s0 of
        (header_type, s1) \<Rightarrow>
          if header_type \<noteq> 0 \<and> header_type \<noteq> 1 then
            Inr (printf (''Selected device '' @ fmt_x (unat bus) @ '':'' @ fmt_x (unat dev) @ '':''
                         @ fmt_x (unat func) @ '' is an unknown type'' @ newline)
                  (printf (''Unknown PCI header type: '' @ fmt_x (unat header_type) @ newline) s1))
          else
            (case types_at (unat header_type) of
               Inl e \<Rightarrow> Inl e
             | Inr ptr \<Rightarrow>
                 header_rows bus dev func ptr 0 0
                   (printf (separator @ ''    Address'' @ newline)
                     (printf (banner @ newline)
                       (printf (''Selected device '' @ fmt_x (unat bus) @ '':'' @ fmt_x (unat dev)
                                @ '':'' @ fmt_x (unat func) @ '' is a''
                                @ ctypes ! unat header_type @ newline) s1)))))"

section \<open>The kernel module (pci_dev.c)\<close>

text \<open>
  What the module reads of \<^verbatim>\<open>struct pci_dev\<close>: \<open>bus->number\<close>, \<open>devfn\<close>, \<open>hdr_type\<close>, and
  the configuration dwords \<open>pci_read_config_dword\<close> returns. A \<open>NULL\<close> pointer is \<open>None\<close>.
  The kernel log is a list of records: \<open>pr_info\<close> starts a record, \<open>pr_cont\<close> continues
  the last one.
\<close>

record pci_dev =
  bus_number :: u8
  devfn :: u32
  hdr_type :: u8
  config_dword :: "u32 \<Rightarrow> u32"

definition pr_info :: "string \<Rightarrow> string list \<Rightarrow> string list" where
  "pr_info text klog = klog @ [text]"

definition pr_cont :: "string \<Rightarrow> string list \<Rightarrow> string list" where
  "pr_cont text klog = (if klog = [] then [text] else butlast klog @ [last klog @ text])"

text \<open>
  The \<open>for\<close> loop of the module's \<open>print_pci_header\<close>. The two table loops are the ones of
  the user-space program, with \<open>pr_cont\<close> in place of \<open>putchar\<close> and \<open>printf\<close>: they
  extend the record that \<^verbatim>\<open>pr_info("|")\<close> started, so \<open>rec2\<close> is that record when the value
  loop is through. \<^verbatim>\<open>pr_cont("    0x%02x", i)\<close> ends it and the separator is a record of
  its own.
\<close>

function header_rows_kmod ::
  "pci_dev \<Rightarrow> config_space_bitfield list \<Rightarrow> u32 \<Rightarrow> nat \<Rightarrow> string list \<Rightarrow> fault + string list"
  where
  "header_rows_kmod pdev ptr i bitfield klog =
     (if i < 0x40 then
        (case label_loop ptr bitfield i ''|'' of
           Inl e \<Rightarrow> Inl e
         | Inr (bf_end, rec1) \<Rightarrow>
            (case value_loop ptr bitfield i (config_dword pdev i) (rec1 @ ''    |'') [] of
               Inl e \<Rightarrow> Inl e
             | Inr (bitfield', rec2, masks) \<Rightarrow>
                 header_rows_kmod pdev ptr (i + 4) bitfield'
                   (pr_info (separator @ newline)
                     (pr_cont (''    0x'' @ fmt_02x (unat i)) (pr_info rec2 klog)))))
      else Inr klog)"
  by pat_completeness auto
termination
  by (relation "measure (\<lambda>(pdev, ptr, i, bitfield, klog). 64 - unat i)")
     (auto simp: word_less_nat_alt unat_word_ariths)

declare header_rows_kmod.simps [simp del]

text \<open>
  \<open>print_pci_header(pdev)\<close> of pci_dev.c:
  \<^verbatim>\<open>if (pdev == NULL) return; header_type = pdev->hdr_type; ptr = types[header_type];\<close>
  and then the dump. The array is indexed with the header type as it is read.
\<close>

definition print_pci_header_kmod :: "pci_dev option \<Rightarrow> string list \<Rightarrow> fault + string list" where
  "print_pci_header_kmod pdev_ptr klog =
     (case pdev_ptr of
        None \<Rightarrow> Inr klog
      | Some pdev \<Rightarrow>
          (case types_at (unat (hdr_type pdev)) of
             Inl e \<Rightarrow> Inl e
           | Inr ptr \<Rightarrow>
               header_rows_kmod pdev ptr 0 0
                 (pr_info (separator @ ''    Address'' @ newline)
                   (pr_info (banner @ newline)
                     (pr_info (''Selected device '' @ fmt_x (unat (bus_number pdev)) @ '':''
                               @ fmt_x (unat (devfn pdev AND 0xF8)) @ '':''
                               @ fmt_x (unat (devfn pdev AND 0x07)) @ '' is a''
                               @ ctypes ! unat (hdr_type pdev) @ newline) klog)))))"

section \<open>Windows, runs and lines\<close>

text \<open>The sixteen values \<open>i\<close> takes in \<^verbatim>\<open>for (i=0; i<0x40; i+=4)\<close>.\<close>

definition windows :: "u32 list" where
  "windows = [0x00, 0x04, 0x08, 0x0C, 0x10, 0x14, 0x18, 0x1C,
              0x20, 0x24, 0x28, 0x2C, 0x30, 0x34, 0x38, 0x3C]"

text \<open>
  The run of a window, in the specification's words: the entries of the layout whose
  offset lies in \<open>[w, w+4)\<close>. \<open>window_start\<close> counts the entries below the window; it is
  the value of the cursor \<open>bitfield\<close> when the \<open>for\<close> loop reaches the window.
\<close>

definition window_run :: "config_space_bitfield list \<Rightarrow> u32 \<Rightarrow> config_space_bitfield list" where
  "window_run ptr w = filter (\<lambda>s. w \<le> bf_offset s \<and> bf_offset s < w + 4) ptr"

definition window_start :: "config_space_bitfield list \<Rightarrow> u32 \<Rightarrow> nat" where
  "window_start ptr w = length (takeWhile (\<lambda>s. bf_offset s < w) ptr)"

text \<open>
  What the loops rely on in a table: the entries are in the order of their offsets, every
  entry has a size from 1 to 4 or is an entry of size 5 at offset \<open>0x40\<close>, and some entry
  at offset \<open>0x40\<close> ends the table.
\<close>

definition terminated_layout :: "config_space_bitfield list \<Rightarrow> bool" where
  "terminated_layout ptr \<longleftrightarrow>
     sorted (map bf_offset ptr)
     \<and> list_all (\<lambda>s. bf_size s \<in> {1, 2, 3, 4} \<or> (bf_size s = 5 \<and> bf_offset s = 0x40)) ptr
     \<and> list_ex (\<lambda>s. bf_offset s = 0x40) ptr"

text \<open>
  The value of the field \<open>s\<close> in the dword \<open>v\<close> of the window at \<open>w\<close>, as the
  specification computes it, and the mask the specification constructs for it.
\<close>

definition field_value :: "u32 \<Rightarrow> config_space_bitfield \<Rightarrow> u32 \<Rightarrow> u32" where
  "field_value v s w =
     of_nat (spec_field_value (unat v) (unat (bf_size s)) (unat (bf_offset s - w)))"

definition field_mask :: "config_space_bitfield \<Rightarrow> u32 \<Rightarrow> u64" where
  "field_mask s w = of_nat (spec_mask (unat (bf_size s)) (unat (bf_offset s - w)))"

text \<open>
  The text of one window: the bar and the label cells of the run, four blanks, the bar and
  the value cells of the run, the address of the window, and the separator line.
\<close>

definition label_row :: "config_space_bitfield list \<Rightarrow> u32 \<Rightarrow> string" where
  "label_row ptr w = ''|'' @ concat (map label_cell (window_run ptr w))"

definition value_row :: "config_space_bitfield list \<Rightarrow> u32 \<Rightarrow> u32 \<Rightarrow> string" where
  "value_row ptr w v =
     ''    |'' @ concat (map (\<lambda>s. value_text (field_value v s w) s) (window_run ptr w))"

definition window_line :: "config_space_bitfield list \<Rightarrow> u32 \<Rightarrow> u32 \<Rightarrow> string" where
  "window_line ptr w v = label_row ptr w @ value_row ptr w v @ ''    0x'' @ fmt_02x (unat w)"

definition window_text :: "config_space_bitfield list \<Rightarrow> u32 \<Rightarrow> u32 \<Rightarrow> string" where
  "window_text ptr w v = window_line ptr w v @ newline @ separator @ newline"

text \<open>The windows from \<open>i\<close> on, as the \<open>for\<close> loop visits them.\<close>

function windows_from :: "u32 \<Rightarrow> u32 list" where
  "windows_from i = (if i < 0x40 then i # windows_from (i + 4) else [])"
  by pat_completeness auto
termination
  by (relation "measure (\<lambda>i. 64 - unat i)") (auto simp: word_less_nat_alt unat_word_ariths)

declare windows_from.simps [simp del]

text \<open>
  The dword the program reads for the window at \<open>w\<close> from the function
  \<open>bus:dev:func\<close>, and the header type it reads.
\<close>

definition config_dword_at :: "u8 \<Rightarrow> u8 \<Rightarrow> u8 \<Rightarrow> io_state \<Rightarrow> u32 \<Rightarrow> u32" where
  "config_dword_at bus dev func s w = cfg_data s (PCI_CFGTAG bus dev func (ucast w AND 0xFC))"

definition header_type_at :: "u8 \<Rightarrow> u8 \<Rightarrow> u8 \<Rightarrow> io_state \<Rightarrow> u8" where
  "header_type_at bus dev func s = fst (pci_cfg_reg_read_header_type bus dev func s)"

text \<open>
  The three lines ahead of the table, the table for a header type, and the two messages
  for a header type the program does not know.
\<close>

definition selected_line :: "u8 \<Rightarrow> u8 \<Rightarrow> u8 \<Rightarrow> u8 \<Rightarrow> string" where
  "selected_line bus dev func header_type =
     ''Selected device '' @ fmt_x (unat bus) @ '':'' @ fmt_x (unat dev) @ '':'' @ fmt_x (unat func)
     @ '' is a'' @ ctypes ! unat header_type"

definition heading :: "u8 \<Rightarrow> u8 \<Rightarrow> u8 \<Rightarrow> u8 \<Rightarrow> string" where
  "heading bus dev func header_type =
     selected_line bus dev func header_type @ newline @ banner @ newline
     @ separator @ ''    Address'' @ newline"

definition table_text :: "config_space_bitfield list \<Rightarrow> (u32 \<Rightarrow> u32) \<Rightarrow> string" where
  "table_text ptr rd = concat (map (\<lambda>w. window_text ptr w (rd w)) windows)"

definition rejection_text :: "u8 \<Rightarrow> u8 \<Rightarrow> u8 \<Rightarrow> u8 \<Rightarrow> string" where
  "rejection_text bus dev func header_type =
     ''Unknown PCI header type: '' @ fmt_x (unat header_type) @ newline
     @ ''Selected device '' @ fmt_x (unat bus) @ '':'' @ fmt_x (unat dev) @ '':'' @ fmt_x (unat func)
     @ '' is an unknown type'' @ newline"

text \<open>
  The text one call of \<open>print_pci_header\<close> adds to the standard output, when the call
  returns.
\<close>

definition rendered :: "u8 \<Rightarrow> u8 \<Rightarrow> u8 \<Rightarrow> io_state \<Rightarrow> string option" where
  "rendered bus dev func s =
     (case print_pci_header bus dev func s of
        Inl e \<Rightarrow> None
      | Inr s' \<Rightarrow> Some (drop (length (stdout s)) (stdout s')))"

text \<open>
  The names and the values the value loop extracts for one window, read off the masks it
  recorded.
\<close>

definition decode_window ::
  "config_space_bitfield list \<Rightarrow> u32 \<Rightarrow> u32 \<Rightarrow> fault + (string \<times> u32) list" where
  "decode_window ptr i v =
     (case value_loop ptr (window_start ptr i) i v [] [] of
        Inl e \<Rightarrow> Inl e
      | Inr (b, out, masks) \<Rightarrow> Inr (map (\<lambda>(s, m). (bf_name s, bf_value v m s i)) masks))"

text \<open>
  The invariant the specification states for a layout, on the entries ahead of the
  sentinel: ascending offsets, no entry reaching into the next one, and every byte of
  \<open>[0, 0x40)\<close> inside the span of some entry.
\<close>

fun ascending_offsets :: "config_space_bitfield list \<Rightarrow> bool" where
  "ascending_offsets (a # b # rest) = (bf_offset a < bf_offset b \<and> ascending_offsets (b # rest))"
| "ascending_offsets _ = True"

fun spans_disjoint :: "config_space_bitfield list \<Rightarrow> bool" where
  "spans_disjoint (a # b # rest) =
     (unat (bf_offset a) + unat (bf_size a) \<le> unat (bf_offset b) \<and> spans_disjoint (b # rest))"
| "spans_disjoint _ = True"

definition in_span :: "nat \<Rightarrow> config_space_bitfield \<Rightarrow> bool" where
  "in_span byte s \<longleftrightarrow>
     unat (bf_offset s) \<le> byte \<and> byte < unat (bf_offset s) + unat (bf_size s)"

definition covered :: "config_space_bitfield list \<Rightarrow> nat \<Rightarrow> bool" where
  "covered specs byte = list_ex (in_span byte) specs"

definition covers_header :: "config_space_bitfield list \<Rightarrow> bool" where
  "covers_header specs \<longleftrightarrow>
     list_all (covered specs) [0..<0x40] \<and> list_all (\<lambda>s. unat (bf_offset s) + unat (bf_size s) \<le> 0x40) specs"

definition layout_invariant :: "config_space_bitfield list \<Rightarrow> bool" where
  "layout_invariant ptr \<longleftrightarrow>
     ascending_offsets (butlast ptr) \<and> spans_disjoint (butlast ptr) \<and> covers_header (butlast ptr)"

text \<open>The lines of a text: the pieces that end in a newline, and what follows the last one.\<close>

fun split_lines :: "string \<Rightarrow> string \<Rightarrow> string list" where
  "split_lines cur [] = (if cur = [] then [] else [cur])"
| "split_lines cur (c # cs) =
     (if c = CHR 0x0A then cur # split_lines [] cs else split_lines (cur @ [c]) cs)"

definition text_lines :: "string \<Rightarrow> string list" where
  "text_lines text = split_lines [] text"

text \<open>The lines one call of \<open>print_pci_header\<close> adds to the standard output.\<close>

definition rendered_lines :: "u8 \<Rightarrow> u8 \<Rightarrow> u8 \<Rightarrow> io_state \<Rightarrow> string list" where
  "rendered_lines bus dev func s =
     (case rendered bus dev func s of None \<Rightarrow> [] | Some t \<Rightarrow> text_lines t)"

text \<open>
  The endpoint \<open>26:0:0\<close> of the sample run recorded at the end of pci_header.c: the dwords
  of its configuration header, at the addresses \<open>PCI_CFGTAG\<close> forms for bus \<open>0x26\<close>.
\<close>

definition sample_dword :: "u32 \<Rightarrow> u32" where
  "sample_dword address =
     (if address = 0x80260000 then 0x100910B5
      else if address = 0x80260004 then 0x00100007
      else if address = 0x80260008 then 0x088000B0
      else if address = 0x8026000C then 0x00000008
      else if address = 0x80260010 then 0xC2000000
      else if address = 0x8026002C then 0x978110B5
      else if address = 0x80260034 then 0x00000040
      else if address = 0x8026003C then 0x000001FF
      else 0)"

definition sample_endpoint :: io_state where
  "sample_endpoint = \<lparr>cfg_addr = 0, cfg_data = sample_dword, stdout = []\<rparr>"

section \<open>int_2_hexstr writes a fixed number of digits\<close>

lemma hex_fixed_zero: "hex_fixed n 0 = replicate n CHR ''0''"
  by (induction n) (simp_all add: letters_def replicate_append_same)

lemma length_hex_fixed: "length (hex_fixed n x) = n"
  by (induction n arbitrary: x) simp_all

lemma unat_low_nibble: "unat ((v::u32) AND 0xf) = unat v mod 16"
proof -
  have "(0xf :: u32) = mask 4" by (simp add: mask_eq_exp_minus_1)
  then have "v AND 0xf = take_bit 4 v" by (simp add: take_bit_eq_mask)
  then show ?thesis by (simp add: unsigned_take_bit_eq take_bit_eq_mod unat_mod)
qed

lemma zeros_update_last:
  "(pre @ replicate (Suc n) z @ suf)[length pre + n := c] = pre @ replicate n z @ (c # suf)"
proof -
  have "replicate (Suc n) z = replicate n z @ [z]"
    by (simp add: replicate_append_same)
  then have "pre @ replicate (Suc n) z @ suf = (pre @ replicate n z) @ (z # suf)"
    by simp
  then have "(pre @ replicate (Suc n) z @ suf)[length pre + n := c]
               = ((pre @ replicate n z) @ (z # suf))[length (pre @ replicate n z) := c]"
    by simp
  also have "\<dots> = (pre @ replicate n z) @ (c # suf)"
    by (rule list_update_length)
  finally show ?thesis by simp
qed

text \<open>
  The loop fills the zeros from the right: started at the last of \<open>n\<close> zeros, it leaves
  the low \<open>n\<close> hexadecimal digits of the value, whatever follows the zeros.
\<close>

lemma hexstr_loop_fill:
  "hexstr_loop v (Suc n) (''0x'' @ replicate n CHR ''0'' @ suf)
     = ''0x'' @ hex_fixed n (unat v) @ suf"
proof (induction n arbitrary: v suf)
  case 0
  show ?case by (simp add: hexstr_loop.simps)
next
  case (Suc n)
  show ?case
  proof (cases "v = 0")
    case True
    then show ?thesis
      by (subst hexstr_loop.simps) (simp add: hex_fixed_zero replicate_append_same letters_def)
  next
    case False
    then have pos: "0 < v" by (simp add: word_greater_zero_iff)
    have upd: "(''0x'' @ replicate (Suc n) CHR ''0'' @ suf)[Suc (Suc n) := c]
                 = ''0x'' @ replicate n CHR ''0'' @ (c # suf)" for c
      using zeros_update_last [of "''0x''" n "CHR ''0''" suf c] by simp
    have d: "unat (drop_bit 4 v) = unat v div 16"
      by (simp add: drop_bit_eq_div unat_div)
    have step: "hexstr_loop v (Suc (Suc n)) (''0x'' @ replicate (Suc n) CHR ''0'' @ suf)
       = hexstr_loop (drop_bit 4 v) (Suc n)
           ((''0x'' @ replicate (Suc n) CHR ''0'' @ suf)[Suc (Suc n) := letters ! unat (v AND 0xf)])"
      using pos by (subst hexstr_loop.simps) simp
    show ?thesis
      unfolding step upd
      using Suc.IH [of "drop_bit 4 v" "(letters ! unat (v AND 0xf)) # suf"]
      by (simp add: d unat_low_nibble)
  qed
qed

lemma concat_zero_pairs: "concat (replicate n ''00'') = replicate (2 * n) CHR ''0''"
  by (induction n) simp_all

lemma int_2_hexstr_eq:
  assumes "unat sz < 2 ^ 31"
  shows "int_2_hexstr v sz = ''0x'' @ hex_fixed (2 * unat sz) (unat v)"
proof -
  have "unat (1 + 2 * sz) = Suc (2 * unat sz)"
    using assms by (simp add: unat_word_ariths)
  then have "unat (2 + 2 * sz - 1) = Suc (2 * unat sz)" by simp
  then show ?thesis
    using hexstr_loop_fill [of v "2 * unat sz" "[]"]
    by (simp add: int_2_hexstr_def concat_zero_pairs)
qed

lemma hex_fixed_nth:
  "k < n \<Longrightarrow> hex_fixed n x ! k = letters ! ((x div 16 ^ (n - 1 - k)) mod 16)"
proof (induction n arbitrary: x k)
  case 0 then show ?case by simp
next
  case (Suc n)
  show ?case
  proof (cases "k < n")
    case True
    then have "n - k = Suc (n - 1 - k)" by simp
    with True Suc.IH [of k "x div 16"] show ?thesis
      by (simp add: nth_append length_hex_fixed div_mult2_eq)
  next
    case False
    with Suc.prems have "k = n" by simp
    then show ?thesis by (simp add: nth_append length_hex_fixed)
  qed
qed

lemma hex_fixed_numeral:
  "hex_fixed (numeral k) x = hex_fixed (pred_numeral k) (x div 16) @ [letters ! (x mod 16)]"
  using hex_fixed.simps(2) [of "pred_numeral k" x] by (simp only: numeral_eq_Suc [symmetric])

lemma letters_nth_mem: "letters ! (x mod 16) \<in> set letters"
proof -
  have "length letters = 16" by (simp add: letters_def)
  moreover have "x mod 16 < 16" by simp
  ultimately show ?thesis by (simp only: nth_mem)
qed

lemma hex_fixed_chars: "set (hex_fixed n x) \<subseteq> set letters"
  by (induction n arbitrary: x) (simp_all add: letters_nth_mem)

section \<open>The mask and the extracted value, in unbounded arithmetic\<close>

lemma unat_shifted_mask:
  assumes "k + c \<le> 64"
  shows "unat (push_bit c (push_bit k 1 - 1) :: u64) = push_bit c (push_bit k 1 - 1)"
proof -
  have m: "(push_bit k 1 - 1 :: u64) = mask k"
    by (simp add: mask_eq_exp_minus_1)
  have mn: "(push_bit k 1 - 1 :: nat) = mask k"
    by (simp add: mask_eq_exp_minus_1)
  have k: "k \<le> 64" using assms by simp
  have um: "unat (mask k :: u64) = mask k"
    using k by (simp add: unat_eq_nat_uint uint_mask_eq min_def nat_mask_eq)
  have "(mask k :: nat) < 2 ^ k" by (simp add: mask_eq_exp_minus_1)
  then have "push_bit c (mask k :: nat) < 2 ^ (k + c)"
    by (simp add: push_bit_eq_mult power_add)
  also have "(2::nat) ^ (k + c) \<le> 2 ^ 64"
    using assms by (intro power_increasing) simp_all
  finally have "take_bit 64 (push_bit c (mask k :: nat)) = push_bit c (mask k)"
    by (simp add: take_bit_nat_eq_self)
  moreover have "unat (push_bit c (mask k :: u64))
                   = take_bit 64 (push_bit c (unat (mask k :: u64)))"
    by (simp add: unsigned_push_bit_eq)
  ultimately have "unat (push_bit c (mask k :: u64)) = push_bit c (mask k)"
    by (simp only: um)
  then show ?thesis
    unfolding m mn .
qed

lemma unat_bf_value:
  "unat (bf_value v m s i) = drop_bit (unat (8 * (bf_offset s - i))) (unat v AND unat m)"
proof -
  let ?c = "unat (8 * (bf_offset s - i))"
  let ?x = "drop_bit ?c ((ucast v :: u64) AND m)"
  have uv: "unat (ucast v :: u64) = unat v"
    by (simp add: unsigned_ucast_eq take_bit_nat_eq_self unsigned_less [THEN less_le_trans])
  have "(ucast v :: u64) AND m \<le> ucast v" by (rule word_and_le2)
  then have "unat ((ucast v :: u64) AND m) \<le> unat v"
    by (simp add: word_le_nat_alt uv)
  moreover have "unat ?x \<le> unat ((ucast v :: u64) AND m)"
  proof -
    have "unat ?x = drop_bit ?c (unat ((ucast v :: u64) AND m))"
      by (rule unat_drop_bit_eq)
    also have "\<dots> \<le> unat ((ucast v :: u64) AND m)"
      by (simp add: drop_bit_eq_div)
    finally show ?thesis .
  qed
  moreover have "unat v < 2 ^ 32" using unsigned_less [of v] by simp
  ultimately have small: "unat ?x < 2 ^ 32" by linarith
  have "unat (bf_value v m s i) = take_bit 32 (unat ?x)"
    by (simp add: bf_value_def unsigned_ucast_eq)
  also have "\<dots> = unat ?x" using small by (simp add: take_bit_nat_eq_self)
  also have "\<dots> = drop_bit ?c (unat v AND unat m)"
    by (simp only: unat_drop_bit_eq unsigned_and_eq uv)
  finally show ?thesis .
qed

section \<open>What the two loops compute\<close>

text \<open>
  While some entry at or after the cursor stops the loop, the label loop prints the cells
  of the longest prefix of entries below \<open>i + 4\<close> and stops behind that prefix.
\<close>

lemma label_loop_run:
  assumes "\<exists>s \<in> set (drop b ptr). \<not> bf_offset s < i + 4"
  shows "label_loop ptr b i out
           = Inr (b + length (takeWhile (\<lambda>s. bf_offset s < i + 4) (drop b ptr)),
                  out @ concat (map label_cell (takeWhile (\<lambda>s. bf_offset s < i + 4) (drop b ptr))))"
  using assms
proof (induction ptr b i out rule: label_loop.induct)
  case (1 ptr b i out)
  from "1.prems" have inb: "b < length ptr"
    by (cases "b < length ptr") auto
  then have d: "drop b ptr = ptr ! b # drop (Suc b) ptr"
    by (simp add: Cons_nth_drop_Suc)
  show ?case
  proof (cases "bf_offset (ptr ! b) < i + 4")
    case True
    with "1.prems" d have ex: "\<exists>s \<in> set (drop (b + 1) ptr). \<not> bf_offset s < i + 4"
      by auto
    show ?thesis
      using inb True "1.IH" [OF _ True ex]
      by (subst label_loop.simps) (simp add: d)
  next
    case False
    then show ?thesis
      using inb by (subst label_loop.simps) (simp add: d)
  qed
qed

text \<open>
  The value loop does the same over the entries that are below \<open>i + 4\<close> and not of size 5,
  as long as the mask and the cell of each of them are defined.
\<close>

lemma value_loop_run:
  assumes "\<exists>s \<in> set (drop b ptr). \<not> (bf_offset s < i + 4 \<and> bf_size s \<noteq> 5)"
      and "\<forall>s \<in> set (takeWhile (\<lambda>s. bf_offset s < i + 4 \<and> bf_size s \<noteq> 5) (drop b ptr)).
             bf_mask s i = Inr (M s) \<and> value_cell (bf_value v (M s) s i) s = Inr (C s)"
  shows "value_loop ptr b i v out masks
           = Inr (b + length (takeWhile (\<lambda>s. bf_offset s < i + 4 \<and> bf_size s \<noteq> 5) (drop b ptr)),
                  out @ concat (map C (takeWhile (\<lambda>s. bf_offset s < i + 4 \<and> bf_size s \<noteq> 5) (drop b ptr))),
                  masks @ map (\<lambda>s. (s, M s))
                            (takeWhile (\<lambda>s. bf_offset s < i + 4 \<and> bf_size s \<noteq> 5) (drop b ptr)))"
  using assms
proof (induction ptr b i v out masks rule: value_loop.induct)
  case (1 ptr b i v out masks)
  let ?P = "\<lambda>s. bf_offset s < i + 4 \<and> bf_size s \<noteq> 5"
  from "1.prems"(1) have inb: "b < length ptr"
    by (cases "b < length ptr") auto
  then have d: "drop b ptr = ptr ! b # drop (Suc b) ptr"
    by (simp add: Cons_nth_drop_Suc)
  show ?case
  proof (cases "?P (ptr ! b)")
    case True
    with "1.prems"(1) d have ex: "\<exists>s \<in> set (drop (b + 1) ptr). \<not> ?P s"
      by auto
    from True "1.prems"(2) d have here: "bf_mask (ptr ! b) i = Inr (M (ptr ! b))"
      "value_cell (bf_value v (M (ptr ! b)) (ptr ! b) i) (ptr ! b) = Inr (C (ptr ! b))"
      by auto
    from True "1.prems"(2) d have rest: "\<forall>s \<in> set (takeWhile ?P (drop (b + 1) ptr)).
             bf_mask s i = Inr (M s) \<and> value_cell (bf_value v (M s) s i) s = Inr (C s)"
      by auto
    have o: "bf_offset (ptr ! b) < i + 4" and z: "bf_size (ptr ! b) \<noteq> 5"
      using True by auto
    have no: "\<not> length ptr \<le> b" using inb by simp
    show ?thesis
      using inb True "1.IH" [OF no o z here(1) here(2) ex rest]
      by (subst value_loop.simps) (simp add: d here)
  next
    case False
    then show ?thesis
      using inb by (subst value_loop.simps) (auto simp add: d)
  qed
qed

section \<open>Tables in the order of their offsets\<close>

lemma bfield_sel [simp]:
  "bf_name (bfield n off sz) = n" "bf_offset (bfield n off sz) = off" "bf_size (bfield n off sz) = sz"
  by (simp_all add: bfield_def)

lemma terminated_type_0: "terminated_layout type_0_header"
  by (simp add: terminated_layout_def type_0_header_def)

lemma terminated_type_1: "terminated_layout type_1_header"
  by (simp add: terminated_layout_def type_1_header_def)

lemma sorted_takeWhile_below:
  "sorted (map f xs) \<Longrightarrow> takeWhile (\<lambda>x. f x < a) xs = filter (\<lambda>x. f x < a) xs"
proof (induction xs)
  case Nil then show ?case by simp
next
  case (Cons x xs)
  show ?case
  proof (cases "f x < a")
    case True with Cons show ?thesis by simp
  next
    case False
    with Cons.prems have "\<forall>y \<in> set xs. \<not> f y < a" by (fastforce)
    then have "filter (\<lambda>x. f x < a) xs = []" by (simp add: filter_empty_conv)
    with False show ?thesis by simp
  qed
qed

lemma sorted_dropWhile_below:
  "sorted (map f xs) \<Longrightarrow> dropWhile (\<lambda>x. f x < a) xs = filter (\<lambda>x. \<not> f x < a) xs"
proof (induction xs)
  case Nil then show ?case by simp
next
  case (Cons x xs)
  show ?case
  proof (cases "f x < a")
    case True with Cons show ?thesis by simp
  next
    case False
    with Cons.prems have "\<forall>y \<in> set xs. \<not> f y < a" by (fastforce)
    then have "filter (\<lambda>x. \<not> f x < a) xs = xs" by (simp add: filter_id_conv)
    with False show ?thesis by simp
  qed
qed

lemma drop_window_start:
  assumes "sorted (map bf_offset ptr)"
  shows "drop (window_start ptr w) ptr = filter (\<lambda>s. w \<le> bf_offset s) ptr"
proof -
  have "drop (window_start ptr w) ptr = dropWhile (\<lambda>s. bf_offset s < w) ptr"
    by (simp add: window_start_def dropWhile_eq_drop)
  then show ?thesis
    using sorted_dropWhile_below [OF assms, of w] by (simp add: not_less)
qed

lemma run_from_window_start:
  assumes "sorted (map bf_offset ptr)"
  shows "takeWhile (\<lambda>s. bf_offset s < w + 4) (drop (window_start ptr w) ptr) = window_run ptr w"
proof -
  have "sorted (map bf_offset (filter (\<lambda>s. w \<le> bf_offset s) ptr))"
    using assms by (simp add: sorted_filter)
  then show ?thesis
    using sorted_takeWhile_below [of bf_offset "filter (\<lambda>s. w \<le> bf_offset s) ptr" "w + 4"]
    by (simp add: drop_window_start [OF assms] window_run_def conj_commute)
qed

lemma window_start_next:
  assumes "sorted (map bf_offset ptr)" and "w \<le> w + 4"
  shows "window_start ptr (w + 4) = window_start ptr w + length (window_run ptr w)"
proof -
  have split: "length (filter (\<lambda>s. bf_offset s < w + 4) xs)
          = length (filter (\<lambda>s. bf_offset s < w) xs)
            + length (filter (\<lambda>s. w \<le> bf_offset s \<and> bf_offset s < w + 4) xs)"
    for xs :: "config_space_bitfield list"
    using assms(2) by (induction xs) auto
  show ?thesis
    using split [of ptr]
    by (simp add: window_start_def window_run_def sorted_takeWhile_below [OF assms(1)])
qed

section \<open>The entries of a window\<close>

lemma run_entry:
  assumes tl: "terminated_layout ptr" and w: "w \<le> 0x3C" and s: "s \<in> set (window_run ptr w)"
  shows "bf_size s \<in> {1, 2, 3, 4}" and "unat (bf_offset s - w) < 4"
proof -
  from s have mem: "s \<in> set ptr" and lo: "w \<le> bf_offset s" and hi: "bf_offset s < w + 4"
    by (auto simp: window_run_def)
  from w hi have "bf_offset s \<noteq> 0x40"
    by unat_arith
  with tl mem show "bf_size s \<in> {1, 2, 3, 4}"
    by (auto simp: terminated_layout_def list_all_iff)
  from w lo hi show "unat (bf_offset s - w) < 4"
    by unat_arith
qed

lemma small_field_mask:
  assumes "bf_size s \<in> {1, 2, 3, 4}" and "unat (bf_offset s - w) < 4"
  shows "bf_mask s w = Inr (field_mask s w)"
    and "unat (field_mask s w) = spec_mask (unat (bf_size s)) (unat (bf_offset s - w))"
    and "bf_value v (field_mask s w) s w = field_value v s w"
    and "unat (field_value v s w)
           = spec_field_value (unat v) (unat (bf_size s)) (unat (bf_offset s - w))"
proof -
  let ?k = "unat (bf_size s * 8)" and ?c = "unat (8 * (bf_offset s - w))"
  from assms(1) have k: "?k = unat (bf_size s) * 8" and kle: "?k \<le> 32"
    by auto
  have c8: "unat (8 * d) = 8 * unat d" if "unat d < 4" for d :: u32
    using that by (simp add: unat_word_ariths)
  from assms(2) have c: "?c = 8 * unat (bf_offset s - w)"
    by (rule c8)
  with assms(2) have cle: "?c \<le> 24"
    by linarith
  have um: "unat (push_bit ?c (push_bit ?k 1 - 1) :: u64) = push_bit ?c (push_bit ?k 1 - 1)"
    using kle cle by (intro unat_shifted_mask) simp
  then have "unat (push_bit ?c (push_bit ?k 1 - 1) :: u64) = spec_mask (unat (bf_size s)) (unat (bf_offset s - w))"
    by (simp only: spec_mask_def k c)
  then have fm: "field_mask s w = push_bit ?c (push_bit ?k 1 - 1)"
    unfolding field_mask_def by (metis of_nat_unat ucast_id)
  show "bf_mask s w = Inr (field_mask s w)"
    using kle cle by (simp add: bf_mask_def Let_def fm)
  show um': "unat (field_mask s w) = spec_mask (unat (bf_size s)) (unat (bf_offset s - w))"
    unfolding fm by fact
  have ub: "unat (bf_value v (field_mask s w) s w)
              = spec_field_value (unat v) (unat (bf_size s)) (unat (bf_offset s - w))"
    by (simp only: unat_bf_value um' spec_field_value_def c)
  then show eq: "bf_value v (field_mask s w) s w = field_value v s w"
    unfolding field_value_def by (metis of_nat_unat ucast_id)
  from ub show "unat (field_value v s w)
           = spec_field_value (unat v) (unat (bf_size s)) (unat (bf_offset s - w))"
    unfolding eq .
qed

lemma small_value_cell:
  assumes "bf_size s \<in> {1, 2, 3, 4}"
  shows "value_cell x s = Inr (value_text x s)"
  using assms by (auto simp: value_cell_def)

lemma window_stopper:
  assumes tl: "terminated_layout ptr" and w: "w \<le> 0x3C"
  shows "\<exists>s \<in> set (drop (window_start ptr w) ptr). \<not> bf_offset s < w + 4"
proof -
  from tl obtain s where s: "s \<in> set ptr" "bf_offset s = 0x40"
    by (auto simp: terminated_layout_def list_ex_iff)
  from tl have srt: "sorted (map bf_offset ptr)"
    by (simp add: terminated_layout_def)
  from w s(2) have "w \<le> bf_offset s" and "\<not> bf_offset s < w + 4"
    by unat_arith+
  with s(1) show ?thesis
    by (auto simp: drop_window_start [OF srt])
qed

lemma window_no_wrap: "w \<le> 0x3C \<Longrightarrow> w \<le> w + (4::u32)"
  by (simp add: word_le_nat_alt unat_word_ariths)

lemma takeWhile_conj:
  "\<forall>x \<in> set (takeWhile P xs). Q x \<Longrightarrow> takeWhile (\<lambda>x. P x \<and> Q x) xs = takeWhile P xs"
  by (induction xs) auto

lemma label_loop_window:
  assumes tl: "terminated_layout ptr" and w: "w \<le> 0x3C"
  shows "label_loop ptr (window_start ptr w) w out
           = Inr (window_start ptr (w + 4), out @ concat (map label_cell (window_run ptr w)))"
proof -
  from tl have srt: "sorted (map bf_offset ptr)"
    by (simp add: terminated_layout_def)
  from w have "w \<le> w + 4" by (rule window_no_wrap)
  then show ?thesis
    by (simp add: label_loop_run [OF window_stopper [OF tl w]] run_from_window_start [OF srt]
                  window_start_next [OF srt])
qed

lemma value_loop_window:
  assumes tl: "terminated_layout ptr" and w: "w \<le> 0x3C"
  shows "value_loop ptr (window_start ptr w) w v out masks
           = Inr (window_start ptr (w + 4),
                  out @ concat (map (\<lambda>s. value_text (field_value v s w) s) (window_run ptr w)),
                  masks @ map (\<lambda>s. (s, field_mask s w)) (window_run ptr w))"
proof -
  let ?P = "\<lambda>s. bf_offset s < w + 4" and ?Q = "\<lambda>s. bf_size s \<noteq> 5"
  let ?b = "window_start ptr w"
  from tl have srt: "sorted (map bf_offset ptr)"
    by (simp add: terminated_layout_def)
  have run: "takeWhile ?P (drop ?b ptr) = window_run ptr w"
    by (rule run_from_window_start [OF srt])
  have "\<forall>s \<in> set (takeWhile ?P (drop ?b ptr)). ?Q s"
    unfolding run using run_entry(1) [OF tl w] by fastforce
  then have run': "takeWhile (\<lambda>s. ?P s \<and> ?Q s) (drop ?b ptr) = window_run ptr w"
    by (simp only: takeWhile_conj run)
  have stop: "\<exists>s \<in> set (drop ?b ptr). \<not> (?P s \<and> ?Q s)"
    using window_stopper [OF tl w] by blast
  have cells: "\<forall>s \<in> set (takeWhile (\<lambda>s. ?P s \<and> ?Q s) (drop ?b ptr)).
          bf_mask s w = Inr (field_mask s w)
          \<and> value_cell (bf_value v (field_mask s w) s w) s = Inr (value_text (field_value v s w) s)"
    unfolding run'
    using run_entry [OF tl w] small_field_mask small_value_cell by simp
  from w have "w \<le> w + 4" by (rule window_no_wrap)
  then show ?thesis
    using value_loop_run [of ?b ptr w "\<lambda>s. field_mask s w" v "\<lambda>s. value_text (field_value v s w) s" out masks, OF stop cells]
    by (simp only: run' window_start_next [OF srt])
qed

section \<open>The sixteen windows of the user-space dump\<close>

lemma aligned_window:
  assumes "i < (0x40::u32)" and "4 dvd unat i"
  shows "i \<le> 0x3C" and "4 dvd unat (i + 4)"
proof -
  from assms(1) have lt: "unat i < 64" by (simp add: word_less_nat_alt)
  with assms(2) have "unat i \<le> 60" by presburger
  then show "i \<le> 0x3C" by (simp add: word_le_nat_alt)
  from lt have "unat (i + 4) = unat i + 4" by (simp add: unat_word_ariths)
  with assms(2) show "4 dvd unat (i + 4)" by simp
qed

lemma read_dword_state:
  "pci_cfg_reg_read_dword bus dev func (ucast w) s
     = (config_dword_at bus dev func s w, s\<lparr>cfg_addr := PCI_CFGTAG bus dev func (ucast w AND 0xFC)\<rparr>)"
  by (simp add: pci_cfg_reg_read_dword_def outl_cfg_addr_def inl_cfg_data_def config_dword_at_def Let_def)

lemma config_dword_at_cong:
  "cfg_data s' = cfg_data s \<Longrightarrow> config_dword_at bus dev func s' = config_dword_at bus dev func s"
  by (simp add: config_dword_at_def fun_eq_iff)

lemma config_dword_at_update [simp]:
  "config_dword_at bus dev func (s\<lparr>stdout := t\<rparr>) = config_dword_at bus dev func s"
  "config_dword_at bus dev func (s\<lparr>cfg_addr := a\<rparr>) = config_dword_at bus dev func s"
  by (simp_all add: config_dword_at_def fun_eq_iff)

lemma header_rows_text:
  assumes tl: "terminated_layout ptr"
  shows "4 dvd unat i \<Longrightarrow>
         \<exists>a. header_rows bus dev func ptr i (window_start ptr i) s
           = Inr (s\<lparr>cfg_addr := a,
                    stdout := stdout s @ concat (map (\<lambda>w. window_text ptr w (config_dword_at bus dev func s w))
                                                   (windows_from i))\<rparr>)"
proof (induction i arbitrary: s rule: windows_from.induct)
  case (1 i)
  show ?case
  proof (cases "i < 0x40")
    case False
    have "header_rows bus dev func ptr i (window_start ptr i) s = Inr s"
      using False by (subst header_rows.simps) simp
    moreover have "windows_from i = []"
      using False by (subst windows_from.simps) simp
    ultimately show ?thesis
      by (intro exI [of _ "cfg_addr s"]) simp
  next
    case True
    note w = aligned_window [OF True "1.prems"]
    let ?v = "config_dword_at bus dev func s i"
    let ?s' = "s\<lparr>cfg_addr := PCI_CFGTAG bus dev func (ucast i AND 0xFC),
                  stdout := stdout s @ window_text ptr i ?v\<rparr>"
    have step: "header_rows bus dev func ptr i (window_start ptr i) s
                  = header_rows bus dev func ptr (i + 4) (window_start ptr (i + 4)) ?s'"
      using True
      by (subst header_rows.simps)
         (simp add: label_loop_window [OF tl w(1)] value_loop_window [OF tl w(1)] read_dword_state
                    window_text_def window_line_def label_row_def value_row_def)
    have same: "config_dword_at bus dev func ?s' = config_dword_at bus dev func s"
      by (rule config_dword_at_cong) simp
    from "1.IH" [OF True w(2), of ?s'] obtain a where
      "header_rows bus dev func ptr (i + 4) (window_start ptr (i + 4)) ?s'
         = Inr (?s'\<lparr>cfg_addr := a,
                    stdout := stdout ?s' @ concat (map (\<lambda>w. window_text ptr w (config_dword_at bus dev func ?s' w))
                                                   (windows_from (i + 4)))\<rparr>)"
      by blast
    moreover have "windows_from i = i # windows_from (i + 4)"
      using True by (subst windows_from.simps) simp
    ultimately show ?thesis
      unfolding step same
      by (intro exI [of _ a]) simp
  qed
qed

lemma windows_from_0: "windows_from 0 = windows"
  by (simp add: windows_from.simps windows_def)

section \<open>The whole dump of the user-space program\<close>

lemma read_header_type_state:
  "pci_cfg_reg_read_header_type bus dev func s
     = (header_type_at bus dev func s, s\<lparr>cfg_addr := PCI_CFGTAG bus dev func (0x0e AND 0xFC)\<rparr>)"
  by (simp add: header_type_at_def pci_cfg_reg_read_header_type_def pci_cfg_reg_read_byte_def
                outl_cfg_addr_def Let_def)

lemma header_type_at_update [simp]:
  "header_type_at bus dev func (s\<lparr>stdout := t\<rparr>) = header_type_at bus dev func s"
  "header_type_at bus dev func (s\<lparr>cfg_addr := a\<rparr>) = header_type_at bus dev func s"
  by (simp_all add: header_type_at_def pci_cfg_reg_read_header_type_def pci_cfg_reg_read_byte_def
                outl_cfg_addr_def inl_cfg_data_def Let_def)

lemma types_at_known:
  "types_at 0 = Inr type_0_header" "types_at (Suc 0) = Inr type_1_header"
  by (simp_all add: types_at_def types_def)

lemma terminated_types:
  assumes "ht = 0 \<or> ht = (1::u8)"
  shows "types_at (unat ht) = Inr (types ! unat ht)" and "terminated_layout (types ! unat ht)"
  using assms by (auto simp: types_at_def types_def terminated_type_0 terminated_type_1)

lemma window_start_0: "window_start ptr 0 = 0"
  by (cases ptr) (simp_all add: window_start_def)

lemma print_pci_header_table:
  assumes ht: "header_type_at bus dev func s = 0 \<or> header_type_at bus dev func s = 1"
  shows "\<exists>a. print_pci_header bus dev func s
           = Inr (s\<lparr>cfg_addr := a,
                    stdout := stdout s @ heading bus dev func (header_type_at bus dev func s)
                              @ table_text (types ! unat (header_type_at bus dev func s))
                                  (config_dword_at bus dev func s)\<rparr>)"
proof -
  let ?ht = "header_type_at bus dev func s"
  let ?ptr = "types ! unat ?ht"
  let ?s2 = "s\<lparr>cfg_addr := PCI_CFGTAG bus dev func (0x0e AND 0xFC),
                stdout := stdout s @ heading bus dev func ?ht\<rparr>"
  have p: "print_pci_header bus dev func s = header_rows bus dev func ?ptr 0 (window_start ?ptr 0) ?s2"
    using ht terminated_types(1) [OF ht]
    by (auto simp add: print_pci_header_def read_header_type_state printf_def heading_def
                  selected_line_def window_start_0)
  from header_rows_text [OF terminated_types(2) [OF ht], of 0 bus dev func ?s2]
  obtain a where "header_rows bus dev func ?ptr 0 (window_start ?ptr 0) ?s2
        = Inr (?s2\<lparr>cfg_addr := a,
                    stdout := stdout ?s2 @ concat (map (\<lambda>w. window_text ?ptr w (config_dword_at bus dev func ?s2 w))
                                                   (windows_from 0))\<rparr>)"
    by auto
  then show ?thesis
    unfolding p by (intro exI [of _ a]) (simp add: windows_from_0 table_text_def)
qed

lemma print_pci_header_rejects:
  assumes "header_type_at bus dev func s \<noteq> 0" "header_type_at bus dev func s \<noteq> 1"
  shows "print_pci_header bus dev func s
           = Inr (s\<lparr>cfg_addr := PCI_CFGTAG bus dev func (0x0e AND 0xFC),
                    stdout := stdout s @ rejection_text bus dev func (header_type_at bus dev func s)\<rparr>)"
  using assms
  by (simp add: print_pci_header_def read_header_type_state printf_def rejection_text_def)

lemma layouts_terminated:
  "ptr = type_0_header \<or> ptr = type_1_header \<Longrightarrow> terminated_layout ptr"
  using terminated_type_0 terminated_type_1 by blast

lemma windows_bound: "w \<in> set windows \<Longrightarrow> w \<le> 0x3C"
  by (auto simp: windows_def)

section \<open>The kernel module indexes \<open>types\<close> with the header type as read\<close>

lemma kmod_unchecked_header_type:
  assumes "hdr_type pdev \<noteq> 0" "hdr_type pdev \<noteq> 1"
  shows "print_pci_header_kmod (Some pdev) klog
           = Inl (Types_Index_Out_Of_Range (unat (hdr_type pdev)))"
proof -
  from assms have "unat (hdr_type pdev) \<noteq> 0" and "unat (hdr_type pdev) \<noteq> 1"
    using word_unat_eq_iff [of "hdr_type pdev" 0] word_unat_eq_iff [of "hdr_type pdev" 1]
    by simp_all
  then have "\<not> unat (hdr_type pdev) < 2"
    by linarith
  then show ?thesis
    by (simp add: print_pci_header_kmod_def types_at_def types_def)
qed

section \<open>The text of one call\<close>

lemma rendered_table:
  assumes "header_type_at bus dev func s = 0 \<or> header_type_at bus dev func s = 1"
  shows "rendered bus dev func s
           = Some (heading bus dev func (header_type_at bus dev func s)
                   @ table_text (types ! unat (header_type_at bus dev func s))
                       (config_dword_at bus dev func s))"
proof -
  from print_pci_header_table [OF assms] obtain a where
    "print_pci_header bus dev func s
       = Inr (s\<lparr>cfg_addr := a,
                stdout := stdout s @ heading bus dev func (header_type_at bus dev func s)
                          @ table_text (types ! unat (header_type_at bus dev func s))
                              (config_dword_at bus dev func s)\<rparr>)"
    by blast
  then show ?thesis by (simp add: rendered_def)
qed

lemma rendered_rejection:
  assumes "header_type_at bus dev func s \<noteq> 0" "header_type_at bus dev func s \<noteq> 1"
  shows "rendered bus dev func s
           = Some (rejection_text bus dev func (header_type_at bus dev func s))"
  by (simp add: rendered_def print_pci_header_rejects [OF assms])

section \<open>The masks the value loop constructs\<close>

lemma value_loop_masks:
  "value_loop tbl b i v out masks = Inr (b', out', masks')
     \<Longrightarrow> \<exists>new. masks' = masks @ new \<and> (\<forall>p \<in> set new. bf_size (fst p) \<noteq> 5)"
proof (induction tbl b i v out masks rule: value_loop.induct)
  case (1 ptr b i v out masks)
  show ?case
  proof (cases "length ptr \<le> b")
    case True
    with "1.prems" show ?thesis by (subst (asm) value_loop.simps) simp
  next
    case inb: False
    show ?thesis
    proof (cases "bf_offset (ptr ! b) < i + 4 \<and> bf_size (ptr ! b) \<noteq> 5")
      case False
      with inb "1.prems" have "masks' = masks"
        by (subst (asm) value_loop.simps) (auto split: if_splits)
      then show ?thesis by simp
    next
      case True
      then have o: "bf_offset (ptr ! b) < i + 4" and z: "bf_size (ptr ! b) \<noteq> 5" by simp_all
      from inb o z "1.prems" obtain m cell where
        m: "bf_mask (ptr ! b) i = Inr m"
        and c: "value_cell (bf_value v m (ptr ! b) i) (ptr ! b) = Inr cell"
        and r: "value_loop ptr (b + 1) i v (out @ cell) (masks @ [(ptr ! b, m)]) = Inr (b', out', masks')"
        by (subst (asm) value_loop.simps) (auto split: sum.splits)
      from "1.IH" [OF inb o z m c r] obtain new where
        "masks' = (masks @ [(ptr ! b, m)]) @ new" "\<forall>p \<in> set new. bf_size (fst p) \<noteq> 5"
        by blast
      with z show ?thesis
        by (intro exI [of _ "(ptr ! b, m) # new"]) simp
    qed
  qed
qed

lemma value_loop_at_size_5:
  assumes "b < length tbl" and "bf_size (tbl ! b) = 5"
  shows "value_loop tbl b i v out masks = Inr (b, out, masks)"
  using assms by (subst value_loop.simps) simp

section \<open>The sentinel of the two layouts\<close>

lemma sentinel_of_layouts:
  assumes "ptr = type_0_header \<or> ptr = type_1_header"
  shows "window_start ptr 0x40 = length ptr - 1"
    and "ptr ! window_start ptr 0x40 = bfield ''End'' 0x40 5"
    and "\<forall>s \<in> set ptr. bf_name s = ''End'' \<longrightarrow> bf_size s = 5"
  using assms
  by (auto simp: window_start_def type_0_header_def type_1_header_def)

section \<open>Lines of the output\<close>

lemma split_lines_line:
  "CHR 0x0A \<notin> set a \<Longrightarrow> split_lines cur (a @ CHR 0x0A # rest) = (cur @ a) # split_lines [] rest"
  by (induction a arbitrary: cur) auto

lemma text_lines_line:
  "CHR 0x0A \<notin> set a \<Longrightarrow> text_lines (a @ newline @ rest) = a # text_lines rest"
  using split_lines_line [of a "[]" rest] by (simp add: text_lines_def newline_def)

lemma text_lines_windows:
  assumes "\<forall>w \<in> set ws. CHR 0x0A \<notin> set (line w)" and "CHR 0x0A \<notin> set sep"
  shows "text_lines (concat (map (\<lambda>w. line w @ newline @ sep @ newline) ws) @ rest)
           = concat (map (\<lambda>w. [line w, sep]) ws) @ text_lines rest"
  using assms
proof (induction ws)
  case Nil then show ?case by simp
next
  case (Cons w ws)
  then have "text_lines (line w @ newline @ sep @ newline
                         @ concat (map (\<lambda>w. line w @ newline @ sep @ newline) ws) @ rest)
               = line w # sep # text_lines (concat (map (\<lambda>w. line w @ newline @ sep @ newline) ws) @ rest)"
    by (simp add: text_lines_line)
  with Cons show ?case by simp
qed

lemma fmt_x_chars: "set (fmt_x n) \<subseteq> set lower_digits"
proof (induction n rule: fmt_x.induct)
  case (1 n)
  have len: "length lower_digits = 16" by (simp add: lower_digits_def)
  show ?case
  proof (cases "n < 16")
    case True
    then have "lower_digits ! n \<in> set lower_digits" using len by simp
    with True show ?thesis by (subst fmt_x.simps) simp
  next
    case False
    have "lower_digits ! (n mod 16) \<in> set lower_digits" using len by simp
    with False "1.IH" show ?thesis by (subst fmt_x.simps) simp
  qed
qed

lemma no_newline_digits: "CHR 0x0A \<notin> set lower_digits" "CHR 0x0A \<notin> set letters"
  by (simp_all add: lower_digits_def letters_def)

lemma no_newline_fmt_x: "CHR 0x0A \<notin> set (fmt_x n)"
  using fmt_x_chars [of n] no_newline_digits(1) by blast

lemma no_newline_fmt_02x: "CHR 0x0A \<notin> set (fmt_02x n)"
  using no_newline_fmt_x [of n] by (auto simp: fmt_02x_def)

lemma no_newline_fixed: "CHR 0x0A \<notin> set banner" "CHR 0x0A \<notin> set separator"
  "CHR 0x0A \<notin> set (ctypes ! 0)" "CHR 0x0A \<notin> set (ctypes ! Suc 0)"
  by (simp_all add: banner_def separator_def ctypes_def)

lemma no_newline_spaces: "CHR 0x0A \<notin> set (spaces a b)"
  by (simp add: spaces_def)

lemma no_newline_names:
  assumes "ptr = type_0_header \<or> ptr = type_1_header" and "s \<in> set ptr"
  shows "CHR 0x0A \<notin> set (bf_name s)"
  using assms by (auto simp: type_0_header_def type_1_header_def)

lemma no_newline_label_cell:
  assumes "ptr = type_0_header \<or> ptr = type_1_header" and "s \<in> set ptr"
  shows "CHR 0x0A \<notin> set (label_cell s)"
  using no_newline_names [OF assms] by (simp add: label_cell_def Let_def no_newline_spaces)

lemma no_newline_value_text:
  assumes "bf_size s \<in> {1, 2, 3, 4}"
  shows "CHR 0x0A \<notin> set (value_text x s)"
proof -
  from assms have "unat (bf_size s) < 2 ^ 31" by auto
  then have "int_2_hexstr x (bf_size s) = ''0x'' @ hex_fixed (2 * unat (bf_size s)) (unat x)"
    by (rule int_2_hexstr_eq)
  moreover have "CHR 0x0A \<notin> set (hex_fixed (2 * unat (bf_size s)) (unat x))"
    using hex_fixed_chars no_newline_digits(2) by blast
  ultimately have "CHR 0x0A \<notin> set (int_2_hexstr x (bf_size s))" by simp
  then show ?thesis
    by (simp add: value_text_def Let_def no_newline_spaces)
qed

lemma no_newline_window_line:
  assumes l: "ptr = type_0_header \<or> ptr = type_1_header" and w: "w \<in> set windows"
  shows "CHR 0x0A \<notin> set (window_line ptr w v)"
proof -
  note tl = layouts_terminated [OF l] and wb = windows_bound [OF w]
  have "CHR 0x0A \<notin> set (label_cell s)" if "s \<in> set (window_run ptr w)" for s
    using that no_newline_label_cell [OF l, of s] by (simp add: window_run_def)
  moreover have "CHR 0x0A \<notin> set (value_text (field_value v s w) s)"
    if "s \<in> set (window_run ptr w)" for s
    using no_newline_value_text [OF run_entry(1) [OF tl wb that]] .
  ultimately show ?thesis
    by (auto simp: window_line_def label_row_def value_row_def no_newline_fmt_02x)
qed

lemma no_newline_selected_line:
  assumes "ht = 0 \<or> ht = (1::u8)"
  shows "CHR 0x0A \<notin> set (selected_line bus dev func ht)"
  using assms no_newline_fixed(3,4)
  by (auto simp: selected_line_def no_newline_fmt_x)

lemma text_lines_Nil: "text_lines [] = []"
  by (simp add: text_lines_def)

lemma rendered_lines_table:
  assumes ht: "header_type_at bus dev func s = 0 \<or> header_type_at bus dev func s = 1"
  shows "rendered_lines bus dev func s
           = [selected_line bus dev func (header_type_at bus dev func s), banner,
              separator @ ''    Address'']
             @ concat (map (\<lambda>w. [window_line (types ! unat (header_type_at bus dev func s)) w
                                     (config_dword_at bus dev func s w), separator])
                           windows)"
proof -
  let ?ht = "header_type_at bus dev func s"
  let ?ptr = "types ! unat ?ht"
  let ?line = "\<lambda>w. window_line ?ptr w (config_dword_at bus dev func s w)"
  from ht have l: "?ptr = type_0_header \<or> ?ptr = type_1_header"
    by (auto simp: types_def)
  have tt: "table_text ?ptr (config_dword_at bus dev func s)
              = concat (map (\<lambda>w. ?line w @ newline @ separator @ newline) windows) @ []"
    by (simp add: table_text_def window_text_def)
  have body: "text_lines (table_text ?ptr (config_dword_at bus dev func s))
          = concat (map (\<lambda>w. [?line w, separator]) windows)"
    unfolding tt
    using no_newline_window_line [OF l] no_newline_fixed(2)
    by (subst text_lines_windows) (simp_all add: text_lines_Nil)
  define addr where "addr = separator @ ''    Address''"
  have h: "heading bus dev func ?ht @ table_text ?ptr (config_dword_at bus dev func s)
             = selected_line bus dev func ?ht @ newline @ banner @ newline @ addr @ newline
               @ table_text ?ptr (config_dword_at bus dev func s)"
    by (simp add: heading_def addr_def)
  have "CHR 0x0A \<notin> set addr"
    using no_newline_fixed(2) by (simp add: addr_def)
  with body have "text_lines (heading bus dev func ?ht @ table_text ?ptr (config_dword_at bus dev func s))
          = [selected_line bus dev func ?ht, banner, addr]
            @ concat (map (\<lambda>w. [?line w, separator]) windows)"
    unfolding h
    using no_newline_selected_line [OF ht, of bus dev func] no_newline_fixed(1)
    by (simp add: text_lines_line)
  then have "text_lines (heading bus dev func ?ht @ table_text ?ptr (config_dword_at bus dev func s))
          = [selected_line bus dev func ?ht, banner, separator @ ''    Address'']
            @ concat (map (\<lambda>w. [?line w, separator]) windows)"
    unfolding addr_def .
  then show ?thesis
    by (simp add: rendered_lines_def rendered_table [OF ht])
qed

section \<open>The sample endpoint\<close>

lemma length_line_pairs: "length (concat (map (\<lambda>w. [f w, g]) ws)) = 2 * length ws"
  by (induction ws) simp_all

lemma sample_header_type: "header_type_at 0x26 0 0 sample_endpoint = 0"
  by (simp add: header_type_at_def pci_cfg_reg_read_header_type_def pci_cfg_reg_read_byte_def
        outl_cfg_addr_def inl_cfg_data_def PCI_CFGTAG_def sample_endpoint_def sample_dword_def Let_def)

lemma sample_dword_0: "config_dword_at 0x26 0 0 sample_endpoint 0 = 0x100910B5"
  by (simp add: config_dword_at_def PCI_CFGTAG_def sample_endpoint_def sample_dword_def)

lemma sample_run_0:
  "window_run type_0_header 0 = [bfield ''Vendor ID'' 0x0 2, bfield ''Device ID'' 0x2 2]"
  by (simp add: window_run_def type_0_header_def)

lemma sample_fields_0:
  "field_value 0x100910B5 (bfield ''Vendor ID'' 0x0 2) 0 = 0x10B5"
  "field_value 0x100910B5 (bfield ''Device ID'' 0x2 2) 0 = 0x1009"
  by (simp_all add: field_value_def spec_field_value_def spec_mask_def)

lemma sample_cells_0:
  "value_text 0x10B5 (bfield ''Vendor ID'' 0x0 2) = ''            0x10B5           |''"
  "value_text 0x1009 (bfield ''Device ID'' 0x2 2) = ''            0x1009           |''"
  "label_cell (bfield ''Vendor ID'' 0x0 2) = ''          Vendor ID          |''"
  "label_cell (bfield ''Device ID'' 0x2 2) = ''          Device ID          |''"
  "fmt_02x 0 = ''00''"
  "selected_line 0x26 0 0 0 = ''Selected device 26:0:0 is an Endpoint''"
  by code_simp+

lemma sample_line_0:
  "window_line type_0_header 0 0x100910B5
     = ''|          Vendor ID          |          Device ID          |    |            0x10B5           |            0x1009           |    0x00''"
  by (simp add: window_line_def label_row_def value_row_def sample_run_0 sample_fields_0
                sample_cells_0)

section \<open>The claims\<close>

text \<open>
  C1. For every window offset \<open>w\<close> of the sixteen and both layouts, the value loop started
  at the window's cursor visits exactly the entries whose offset lies in \<open>[w, w+4)\<close>, none
  of them the sentinel, and prints for each the cell of the value
  \<open>(raw & mask) >> (8*(offset - w))\<close> with \<open>mask = ((1 << (size*8)) - 1) << (8*(offset - w))\<close>.
  The 64-bit mask the code constructs and the 32-bit value it extracts are the numbers
  these formulas give on unbounded naturals: nothing overflows.
\<close>

theorem value_loop_extracts_fields:
  assumes "ptr = type_0_header \<or> ptr = type_1_header" and "w \<in> set windows"
  shows "value_loop ptr (window_start ptr w) w v out []
           = Inr (window_start ptr (w + 4),
                  out @ concat (map (\<lambda>s. value_text (field_value v s w) s) (window_run ptr w)),
                  map (\<lambda>s. (s, field_mask s w)) (window_run ptr w))
         \<and> (\<forall>s \<in> set (window_run ptr w).
               bf_size s \<noteq> 5
               \<and> bf_mask s w = Inr (field_mask s w)
               \<and> bf_value v (field_mask s w) s w = field_value v s w
               \<and> unat (field_mask s w) = spec_mask (unat (bf_size s)) (unat (bf_offset s - w))
               \<and> unat (field_value v s w)
                   = spec_field_value (unat v) (unat (bf_size s)) (unat (bf_offset s - w)))"
proof -
  note tl = layouts_terminated [OF assms(1)] and w = windows_bound [OF assms(2)]
  have "value_loop ptr (window_start ptr w) w v out []
           = Inr (window_start ptr (w + 4),
                  out @ concat (map (\<lambda>s. value_text (field_value v s w) s) (window_run ptr w)),
                  map (\<lambda>s. (s, field_mask s w)) (window_run ptr w))"
    using value_loop_window [OF tl w] by simp
  moreover have "bf_size s \<noteq> 5
               \<and> bf_mask s w = Inr (field_mask s w)
               \<and> bf_value v (field_mask s w) s w = field_value v s w
               \<and> unat (field_mask s w) = spec_mask (unat (bf_size s)) (unat (bf_offset s - w))
               \<and> unat (field_value v s w)
                   = spec_field_value (unat v) (unat (bf_size s)) (unat (bf_offset s - w))"
    if "s \<in> set (window_run ptr w)" for s
    using run_entry [OF tl w that] small_field_mask [OF run_entry [OF tl w that]]
    by auto
  ultimately show ?thesis by blast
qed

theorem value_loop_extracts_fields_witness:
  "(type_1_header = type_0_header \<or> type_1_header = type_1_header) \<and> 0x18 \<in> set windows
   \<and> bfield ''Sub. Bus'' 0x1A 1 \<in> set (window_run type_1_header 0x18)
   \<and> bf_mask (bfield ''Sub. Bus'' 0x1A 1) 0x18 = Inr (field_mask (bfield ''Sub. Bus'' 0x1A 1) 0x18)
   \<and> unat (field_mask (bfield ''Sub. Bus'' 0x1A 1) 0x18) = 0xFF0000
   \<and> unat (field_value 0x00261817 (bfield ''Sub. Bus'' 0x1A 1) 0x18) = 0x26"
proof -
  have h1: "type_1_header = type_0_header \<or> type_1_header = type_1_header" by simp
  have h2: "0x18 \<in> set windows" by (simp add: windows_def)
  have mem: "bfield ''Sub. Bus'' 0x1A 1 \<in> set (window_run type_1_header 0x18)"
    by (simp add: window_run_def type_1_header_def)
  from value_loop_extracts_fields [OF h1 h2, of "0x00261817" "[]"] mem
  have "bf_mask (bfield ''Sub. Bus'' 0x1A 1) 0x18 = Inr (field_mask (bfield ''Sub. Bus'' 0x1A 1) 0x18)
        \<and> unat (field_mask (bfield ''Sub. Bus'' 0x1A 1) 0x18)
            = spec_mask (unat (bf_size (bfield ''Sub. Bus'' 0x1A 1)))
                (unat (bf_offset (bfield ''Sub. Bus'' 0x1A 1) - 0x18))
        \<and> unat (field_value 0x00261817 (bfield ''Sub. Bus'' 0x1A 1) 0x18)
            = spec_field_value (unat (0x00261817::u32)) (unat (bf_size (bfield ''Sub. Bus'' 0x1A 1)))
                (unat (bf_offset (bfield ''Sub. Bus'' 0x1A 1) - 0x18))"
    by blast
  then show ?thesis
    using h1 h2 mem by (simp add: spec_mask_def spec_field_value_def)
qed

text \<open>
  C5. For every size from 1 to 4 and every value, \<open>int_2_hexstr\<close> leaves \<open>0x\<close> followed by
  exactly \<open>2 * size\<close> characters, each an upper-case hexadecimal digit: digit \<open>k\<close> from the
  left is the digit of weight \<open>16 ^ (2 * size - 1 - k)\<close> of the value. Leading positions
  are therefore zeros, and the digits of a value beyond that width are dropped.
\<close>

theorem int_2_hexstr_fixed_width:
  assumes "sz \<in> {1, 2, 3, 4}"
  shows "int_2_hexstr v sz = ''0x'' @ hex_fixed (2 * unat sz) (unat v)
         \<and> length (int_2_hexstr v sz) = 2 + 2 * unat sz
         \<and> set (drop 2 (int_2_hexstr v sz)) \<subseteq> set letters
         \<and> (\<forall>k < 2 * unat sz.
               int_2_hexstr v sz ! (2 + k)
                 = letters ! ((unat v div 16 ^ (2 * unat sz - 1 - k)) mod 16))"
proof -
  from assms have "unat sz < 2 ^ 31" by auto
  then have eq: "int_2_hexstr v sz = ''0x'' @ hex_fixed (2 * unat sz) (unat v)"
    by (rule int_2_hexstr_eq)
  have "int_2_hexstr v sz ! (2 + k) = letters ! ((unat v div 16 ^ (2 * unat sz - 1 - k)) mod 16)"
    if "k < 2 * unat sz" for k
    using hex_fixed_nth [OF that, of "unat v"] by (simp add: eq)
  then show ?thesis
    by (simp add: eq length_hex_fixed hex_fixed_chars)
qed

theorem int_2_hexstr_fixed_width_witness:
  "(3::u32) \<in> {1, 2, 3, 4} \<and> (1::u32) \<in> {1, 2, 3, 4}
   \<and> int_2_hexstr 0x000880 3 = ''0x000880''
   \<and> length (int_2_hexstr 0x000880 3) = 8
   \<and> int_2_hexstr 0x000880 3 ! (2 + 3) = CHR ''8''
   \<and> int_2_hexstr 0x12345 1 = ''0x45''"
proof -
  have h: "(3::u32) \<in> {1, 2, 3, 4}" and h': "(1::u32) \<in> {1, 2, 3, 4}" by simp_all
  show ?thesis
    using h h' int_2_hexstr_fixed_width [OF h, of "0x000880"]
      int_2_hexstr_fixed_width [OF h', of "0x12345"]
    by (simp add: hex_fixed_numeral letters_def)
qed

text \<open>
  C3. The kernel module does not check the header type: with \<open>hdr_type = 2\<close> its
  \<open>print_pci_header\<close> reaches \<^verbatim>\<open>ptr = types[header_type]\<close> and reads the third entry of an
  array of two. (The user-space program rejects the same header type before the lookup,
  see \<open>print_pci_header_rejects\<close>.)
\<close>

theorem kmod_header_type_2_indexes_types:
  "print_pci_header_kmod
     (Some \<lparr>bus_number = 0x17, devfn = 0, hdr_type = 2, config_dword = (\<lambda>w. 0)\<rparr>) []
     = Inl (Types_Index_Out_Of_Range 2)"
  by (simp add: print_pci_header_kmod_def types_at_def types_def)

text \<open>
  C10. Called with a \<open>NULL\<close> device pointer, the kernel module's \<open>print_pci_header\<close> returns
  at once: the kernel log is left as it was, with no banner, no table line and no message.
\<close>

theorem print_pci_header_kmod_null: "print_pci_header_kmod None klog = Inr klog"
  by (simp add: print_pci_header_kmod_def)

text \<open>
  C2. Both tables break the invariant at the same place: \<open>Class Code\<close> is entered at offset
  \<open>0xA\<close> with size 3, so its span \<open>[0xA, 0xD)\<close> reaches into \<open>Cache Line S\<close> at \<open>0xC\<close>, and
  byte \<open>0x9\<close>, between \<open>Revision ID\<close> and \<open>Class Code\<close>, lies in no span. (The file's own
  \<^verbatim>\<open>#define PCI_CLASS_PROG 0x09\<close> and \<^verbatim>\<open>PCI_CLASS_REVISION 0x08 // High 24 bits are class\<close>
  place the three class bytes at \<open>0x9\<close>.)
\<close>

theorem class_code_breaks_layout_invariant:
  "type_0_header ! 4 = bfield ''Revision ID'' 0x8 1
   \<and> type_0_header ! 5 = bfield ''Class Code'' 0xA 3
   \<and> type_0_header ! 6 = bfield ''Cache Line S'' 0xC 1
   \<and> type_1_header ! 4 = type_0_header ! 4
   \<and> type_1_header ! 5 = type_0_header ! 5
   \<and> type_1_header ! 6 = type_0_header ! 6
   \<and> \<not> spans_disjoint (butlast type_0_header) \<and> \<not> spans_disjoint (butlast type_1_header)
   \<and> \<not> covered (butlast type_0_header) 9 \<and> \<not> covered (butlast type_1_header) 9
   \<and> \<not> layout_invariant type_0_header \<and> \<not> layout_invariant type_1_header"
proof -
  have d: "\<not> spans_disjoint (butlast type_0_header)" "\<not> spans_disjoint (butlast type_1_header)"
    by (simp_all add: type_0_header_def type_1_header_def)
  have c: "\<not> covered (butlast type_0_header) 9" "\<not> covered (butlast type_1_header) 9"
    by (simp_all add: type_0_header_def type_1_header_def covered_def in_span_def)
  have e: "type_0_header ! 4 = bfield ''Revision ID'' 0x8 1"
    "type_0_header ! 5 = bfield ''Class Code'' 0xA 3"
    "type_0_header ! 6 = bfield ''Cache Line S'' 0xC 1"
    "type_1_header ! 4 = type_0_header ! 4"
    "type_1_header ! 5 = type_0_header ! 5"
    "type_1_header ! 6 = type_0_header ! 6"
    by (simp_all add: type_0_header_def type_1_header_def)
  from d have "\<not> layout_invariant type_0_header" "\<not> layout_invariant type_1_header"
    by (simp_all add: layout_invariant_def)
  with d c e show ?thesis by simp
qed

text \<open>
  C4 (amended). In the Type-1 layout the window at \<open>0x18\<close> decodes, byte by byte from the
  low end of the dword: \<open>0x00261817\<close> gives Primary Bus \<open>0x17\<close>, Secondary Bus \<open>0x18\<close>,
  Sub. Bus \<open>0x26\<close> and Sec Lat timer \<open>0x00\<close>; the dword \<open>0x26181817\<close> gives \<open>0x17\<close>, \<open>0x18\<close>,
  \<open>0x18\<close> and \<open>0x26\<close>.
\<close>

theorem type_1_bus_numbers_decoded:
  "decode_window type_1_header 0x18 0x00261817
     = Inr [(''Primary Bus'', 0x17), (''Secondary Bus'', 0x18), (''Sub. Bus'', 0x26),
            (''Sec Lat timer'', 0x00)]
   \<and> decode_window type_1_header 0x18 0x26181817
     = Inr [(''Primary Bus'', 0x17), (''Secondary Bus'', 0x18), (''Sub. Bus'', 0x18),
            (''Sec Lat timer'', 0x26)]"
  by code_simp

text \<open>
  C4 as stated fails: the dword \<open>0x26181817\<close> does not decode to Sub. Bus \<open>0x26\<close> and
  Sec Lat timer \<open>0x00\<close>.
\<close>

theorem type_1_bus_numbers_counterexample:
  "decode_window type_1_header 0x18 0x26181817
     \<noteq> Inr [(''Primary Bus'', 0x17), (''Secondary Bus'', 0x18), (''Sub. Bus'', 0x26),
            (''Sec Lat timer'', 0x00)]"
  by code_simp

text \<open>
  C6. The value loop pads with \<^verbatim>\<open>(space_available - (2 + size)) / 2\<close>, not with the length
  \<open>2 + 2*size\<close> of the string it prints. For the two-byte \<open>Vendor ID\<close> the column is 29
  wide and the string \<open>0x10B5\<close> is 6 long: the rule of the label row gives 11 blanks on the
  left, the code prints 12 on the left and 11 on the right, while the label of the same
  column is centred by its length.
\<close>

theorem value_cell_not_centred:
  "value_cell 0x10B5 (bfield ''Vendor ID'' 0x0 2)
     = Inr (replicate 12 CHR '' '' @ ''0x10B5'' @ replicate 11 CHR '' '' @ ''|'')
   \<and> unat (space_available (bfield ''Vendor ID'' 0x0 2)) = 29
   \<and> length (int_2_hexstr 0x10B5 2) = 6
   \<and> (29 - 6) div 2 = (11::nat)
   \<and> label_cell (bfield ''Vendor ID'' 0x0 2)
     = replicate 10 CHR '' '' @ ''Vendor ID'' @ replicate 10 CHR '' '' @ ''|''"
  by code_simp

text \<open>
  C9. A call of \<open>print_pci_header\<close> always returns, appends a text to the standard output
  and leaves the configuration registers as they were; a second call for the same
  function, started in the state the first one left (another latched address, a longer
  output), appends the same text again.
\<close>

theorem rendering_is_repeatable:
  "\<exists>s' t. print_pci_header bus dev func s = Inr s'
          \<and> stdout s' = stdout s @ t
          \<and> cfg_data s' = cfg_data s
          \<and> rendered bus dev func s = Some t
          \<and> rendered bus dev func s' = Some t"
proof (cases "header_type_at bus dev func s = 0 \<or> header_type_at bus dev func s = 1")
  case True
  let ?t = "heading bus dev func (header_type_at bus dev func s)
              @ table_text (types ! unat (header_type_at bus dev func s)) (config_dword_at bus dev func s)"
  from print_pci_header_table [OF True] obtain a where
    p: "print_pci_header bus dev func s = Inr (s\<lparr>cfg_addr := a, stdout := stdout s @ ?t\<rparr>)"
    by blast
  have "rendered bus dev func (s\<lparr>cfg_addr := a, stdout := stdout s @ ?t\<rparr>) = Some ?t"
    using True by (subst rendered_table) simp_all
  moreover have "rendered bus dev func s = Some ?t"
    by (rule rendered_table [OF True])
  ultimately show ?thesis
    by (intro exI [of _ "s\<lparr>cfg_addr := a, stdout := stdout s @ ?t\<rparr>"] exI [of _ ?t]) (simp add: p)
next
  case False
  then have ne: "header_type_at bus dev func s \<noteq> 0" "header_type_at bus dev func s \<noteq> 1"
    by simp_all
  let ?t = "rejection_text bus dev func (header_type_at bus dev func s)"
  let ?a = "PCI_CFGTAG bus dev func (0x0e AND 0xFC)"
  have p: "print_pci_header bus dev func s = Inr (s\<lparr>cfg_addr := ?a, stdout := stdout s @ ?t\<rparr>)"
    by (rule print_pci_header_rejects [OF ne])
  have "rendered bus dev func (s\<lparr>cfg_addr := ?a, stdout := stdout s @ ?t\<rparr>) = Some ?t"
    using ne by (subst rendered_rejection) simp_all
  moreover have "rendered bus dev func s = Some ?t"
    by (rule rendered_rejection [OF ne])
  ultimately show ?thesis
    by (intro exI [of _ "s\<lparr>cfg_addr := ?a, stdout := stdout s @ ?t\<rparr>"] exI [of _ ?t]) (simp add: p)
qed

text \<open>
  C7. In every window of either layout the label loop prints the labels of the window's
  run and nothing else, and no entry of a run is the sentinel: its size is not 5, its name
  is not \<open>End\<close> and its offset is below \<open>0x40\<close>. The cursor the last window leaves behind
  is the index of the sentinel, the last entry of the table. The value loop, on any table
  and from any cursor, records no mask for an entry of size 5, and started at an entry
  of size 5 it returns at once with the text and the masks it was given.
\<close>

theorem sentinel_never_rendered:
  assumes "ptr = type_0_header \<or> ptr = type_1_header" and "w \<in> set windows"
  shows "label_loop ptr (window_start ptr w) w out
           = Inr (window_start ptr (w + 4), out @ concat (map label_cell (window_run ptr w)))
         \<and> (\<forall>s \<in> set (window_run ptr w).
               bf_size s \<noteq> 5 \<and> bf_name s \<noteq> ''End'' \<and> bf_offset s < 0x40)
         \<and> window_start ptr 0x40 = length ptr - 1
         \<and> ptr ! window_start ptr 0x40 = bfield ''End'' 0x40 5
         \<and> (value_loop tbl b i v out2 [] = Inr (b', out', masks')
              \<longrightarrow> (\<forall>p \<in> set masks'. bf_size (fst p) \<noteq> 5))
         \<and> (b < length tbl \<and> bf_size (tbl ! b) = 5
              \<longrightarrow> value_loop tbl b i v out2 masks = Inr (b, out2, masks))"
proof -
  note tl = layouts_terminated [OF assms(1)] and w = windows_bound [OF assms(2)]
  have run: "bf_size s \<noteq> 5 \<and> bf_name s \<noteq> ''End'' \<and> bf_offset s < 0x40"
    if s: "s \<in> set (window_run ptr w)" for s
  proof -
    from run_entry(1) [OF tl w s] have z: "bf_size s \<noteq> 5" by auto
    from s have mem: "s \<in> set ptr" and hi: "bf_offset s < w + 4"
      by (auto simp: window_run_def)
    from z mem sentinel_of_layouts(3) [OF assms(1)] have "bf_name s \<noteq> ''End''" by blast
    moreover from w hi have "bf_offset s < 0x40" by unat_arith
    ultimately show ?thesis using z by simp
  qed
  have masks: "\<forall>p \<in> set masks'. bf_size (fst p) \<noteq> 5"
    if "value_loop tbl b i v out2 [] = Inr (b', out', masks')"
    using value_loop_masks [OF that] by simp
  show ?thesis
    using label_loop_window [OF tl w] run sentinel_of_layouts(1,2) [OF assms(1)] masks
      value_loop_at_size_5
    by blast
qed

theorem sentinel_never_rendered_witness:
  "(type_0_header = type_0_header \<or> type_0_header = type_1_header) \<and> 0x3C \<in> set windows
   \<and> label_loop type_0_header (window_start type_0_header 0x3C) 0x3C []
       = Inr (window_start type_0_header (0x3C + 4),
              [] @ concat (map label_cell (window_run type_0_header 0x3C)))
   \<and> window_start type_0_header 0x40 = 27
   \<and> type_0_header ! 27 = bfield ''End'' 0x40 5
   \<and> 27 < length type_0_header \<and> bf_size (type_0_header ! 27) = 5
   \<and> value_loop type_0_header 27 0x40 0 [] [] = Inr (27, [], [])
   \<and> window_run type_0_header 0x3C
       = [bfield ''IRQ'' 0x3C 1, bfield ''IRQ Pin'' 0x3D 1, bfield ''Min Gnt.'' 0x3E 1,
          bfield ''Max Lat.'' 0x3F 1]"
proof -
  have h1: "type_0_header = type_0_header \<or> type_0_header = type_1_header" by simp
  have h2: "0x3C \<in> set windows" by (simp add: windows_def)
  have len: "length type_0_header = 28" by (simp add: type_0_header_def)
  have run: "window_run type_0_header 0x3C
       = [bfield ''IRQ'' 0x3C 1, bfield ''IRQ Pin'' 0x3D 1, bfield ''Min Gnt.'' 0x3E 1,
          bfield ''Max Lat.'' 0x3F 1]"
    by (simp add: window_run_def type_0_header_def)
  have at: "type_0_header ! 27 = bfield ''End'' 0x40 5"
    by (simp add: type_0_header_def)
  from sentinel_never_rendered [OF h1 h2, of "[]" type_0_header 27 "0x40" 0 "[]" 27 "[]" "[]" "[]"]
  have "label_loop type_0_header (window_start type_0_header 0x3C) 0x3C []
          = Inr (window_start type_0_header (0x3C + 4),
                 [] @ concat (map label_cell (window_run type_0_header 0x3C)))"
    and "window_start type_0_header 0x40 = length type_0_header - 1"
    and "27 < length type_0_header \<and> bf_size (type_0_header ! 27) = 5
           \<longrightarrow> value_loop type_0_header 27 0x40 0 [] [] = Inr (27, [], [])"
    by blast+
  then show ?thesis
    using h1 h2 run by (simp add: len at)
qed

text \<open>
  C8 (amended). For a header of type 0 or 1 the program prints 35 lines: the line naming
  the selected device, the banner, the separator line that ends in \<open>Address\<close>, and then
  for each of the sixteen windows, in increasing order, two lines: one line that holds the
  label block, the value block and the address of the window side by side, and one
  separator line.
\<close>

theorem dump_is_two_lines_per_window:
  assumes "header_type_at bus dev func s = 0 \<or> header_type_at bus dev func s = 1"
  shows "rendered_lines bus dev func s
           = [selected_line bus dev func (header_type_at bus dev func s), banner,
              separator @ ''    Address'']
             @ concat (map (\<lambda>w. [window_line (types ! unat (header_type_at bus dev func s)) w
                                     (config_dword_at bus dev func s w), separator])
                           windows)
         \<and> length (rendered_lines bus dev func s) = 3 + 2 * 16
         \<and> (\<forall>w \<in> set windows.
               window_line (types ! unat (header_type_at bus dev func s)) w
                   (config_dword_at bus dev func s w)
                 = label_row (types ! unat (header_type_at bus dev func s)) w
                   @ value_row (types ! unat (header_type_at bus dev func s)) w
                       (config_dword_at bus dev func s w)
                   @ ''    0x'' @ fmt_02x (unat w))"
proof -
  have "length windows = 16" by (simp add: windows_def)
  then show ?thesis
    by (simp add: rendered_lines_table [OF assms] length_line_pairs window_line_def)
qed

theorem dump_is_two_lines_per_window_witness:
  "(header_type_at 0x26 0 0 sample_endpoint = 0 \<or> header_type_at 0x26 0 0 sample_endpoint = 1)
   \<and> 0 \<in> set windows
   \<and> length (rendered_lines 0x26 0 0 sample_endpoint) = 35
   \<and> rendered_lines 0x26 0 0 sample_endpoint ! 1 = banner
   \<and> rendered_lines 0x26 0 0 sample_endpoint ! 4 = separator"
proof -
  have h: "header_type_at 0x26 0 0 sample_endpoint = 0 \<or> header_type_at 0x26 0 0 sample_endpoint = 1"
    by (simp add: sample_header_type)
  have w: "0 \<in> set windows" by (simp add: windows_def)
  from dump_is_two_lines_per_window [OF h]
  have "rendered_lines 0x26 0 0 sample_endpoint
          = [selected_line 0x26 0 0 (header_type_at 0x26 0 0 sample_endpoint), banner,
              separator @ ''    Address'']
             @ concat (map (\<lambda>w. [window_line (types ! unat (header_type_at 0x26 0 0 sample_endpoint)) w
                                     (config_dword_at 0x26 0 0 sample_endpoint w), separator])
                           windows)"
    and "length (rendered_lines 0x26 0 0 sample_endpoint) = 3 + 2 * 16"
    by blast+
  then show ?thesis
    using h w by (simp add: windows_def)
qed

text \<open>
  C8 as stated fails on the sample endpoint: the output does not have the \<open>2 + 16 * 4\<close>
  lines of a banner, a separator and sixteen quartets; its first line names the device,
  and the labels and the values of the first window share its fourth line.
\<close>

theorem dump_lines_counterexample:
  "length (rendered_lines 0x26 0 0 sample_endpoint) \<noteq> 2 + 16 * 4
   \<and> rendered_lines 0x26 0 0 sample_endpoint ! 0 = ''Selected device 26:0:0 is an Endpoint''
   \<and> rendered_lines 0x26 0 0 sample_endpoint ! 3
       = ''|          Vendor ID          |          Device ID          |    |            0x10B5           |            0x1009           |    0x00''"
proof -
  have h: "header_type_at 0x26 0 0 sample_endpoint = 0 \<or> header_type_at 0x26 0 0 sample_endpoint = 1"
    by (simp add: sample_header_type)
  have t: "types ! unat (0::u8) = type_0_header" by (simp add: types_def)
  show ?thesis
    unfolding rendered_lines_table [OF h] sample_header_type t
    by (simp add: length_line_pairs windows_def sample_dword_0 sample_line_0 sample_cells_0)
qed

end
